theory Spec2Isabelle
  imports Complex_Main "HOL-Library.Extended_Nat"
begin

section \<open>JavaScript values\<close>

text \<open>
  A JavaScript \<^verbatim>\<open>number\<close> is a binary64 value: a finite one, \<^verbatim>\<open>NaN\<close> or one of the
  two infinities. Every finite double is a rational, so a finite value is carried as the
  rational it denotes. \<^verbatim>\<open>Math.round\<close>, \<^verbatim>\<open>Number.isFinite\<close> and the comparisons are
  exact on doubles; \<^verbatim>\<open>+\<close>, \<^verbatim>\<open>*\<close> and \<^verbatim>\<open>/\<close> round their exact result to the nearest
  double, a tie going to the even one, and overflow to an infinity. \<^verbatim>\<open>-0\<close> is not told
  apart from \<^verbatim>\<open>0\<close>.
\<close>

datatype number = Num rat | NaN | PInf | NInf

text \<open>A value of TypeScript type \<^verbatim>\<open>T | null | undefined\<close>.\<close>

datatype 'a nullable = Undefined | Null | Val 'a

type_synonym timestamp = nat

text \<open>
  What an object property or a table column holds. \<open>JTime\<close> is a point in time
  (milliseconds): \<^verbatim>\<open>new Date().toISOString()\<close> on the program's side, a timestamp column
  on the store's side, which the store orders chronologically.
\<close>

datatype jsval = JUndefined | JNull | JStr string | JNum number | JTime timestamp

text \<open>An object literal, in property order (what \<^verbatim>\<open>Object.entries\<close> walks).\<close>

type_synonym obj = "(string \<times> jsval) list"

definition Number_isFinite :: "number \<Rightarrow> bool" where
  "Number_isFinite v = (case v of Num _ \<Rightarrow> True | _ \<Rightarrow> False)"

text \<open>\<^verbatim>\<open>Math.round\<close>: the nearest integer, a tie going up; \<open>round x = \<lfloor>x + 1/2\<rfloor>\<close>.\<close>

fun Math_round :: "number \<Rightarrow> number" where
  "Math_round (Num q) = Num (of_int (round q))"
| "Math_round v = v"

text \<open>\<^verbatim>\<open>a < b\<close> on numbers; every comparison with \<^verbatim>\<open>NaN\<close> is false.\<close>

fun js_lt :: "number \<Rightarrow> number \<Rightarrow> bool" where
  "js_lt (Num a) (Num b) = (a < b)"
| "js_lt NaN _ = False"
| "js_lt _ NaN = False"
| "js_lt PInf _ = False"
| "js_lt _ NInf = False"
| "js_lt _ _ = True"

definition js_gt :: "number \<Rightarrow> number \<Rightarrow> bool" where
  "js_gt a b = js_lt b a"

definition sign_of :: "number \<Rightarrow> rat" where
  "sign_of v = (case v of Num a \<Rightarrow> sgn a | PInf \<Rightarrow> 1 | NInf \<Rightarrow> - 1 | NaN \<Rightarrow> 0)"

definition inf_of_sign :: "rat \<Rightarrow> number" where
  "inf_of_sign s = (if 0 < s then PInf else if s < 0 then NInf else NaN)"

text \<open>
  The binary exponent of a positive \<open>q\<close>: the \<open>e\<close> with \<open>2 powi e \<le> q\<close> and
  \<open>q < 2 powi (e + 1)\<close>.
\<close>

function ilog2 :: "rat \<Rightarrow> int" where
  "ilog2 q = (if q \<le> 0 then 0 else if 2 \<le> q then ilog2 (q / 2) + 1
              else if q < 1 then ilog2 (q * 2) - 1 else 0)"
  by pat_completeness auto
termination
proof (relation "measure (\<lambda>q. nat \<lfloor>q\<rfloor> + 2 * nat \<lceil>1 / q\<rceil>)")
  show "wf (measure (\<lambda>q. nat \<lfloor>q\<rfloor> + 2 * nat \<lceil>1 / q\<rceil>))" by simp
next
  fix q :: rat assume "\<not> q \<le> 0" "2 \<le> q"
  then have a: "\<lfloor>q / 2\<rfloor> < \<lfloor>q\<rfloor>" by linarith
  have "0 < 1 / q" "1 / q \<le> 1" "0 < 1 / (q / 2)" "1 / (q / 2) \<le> 1"
    using \<open>2 \<le> q\<close> by (simp_all add: field_simps)
  then have "\<lceil>1 / q\<rceil> = 1" "\<lceil>1 / (q / 2)\<rceil> = 1"
    by (simp_all add: ceiling_eq_iff)
  with a \<open>2 \<le> q\<close> show "(q / 2, q) \<in> measure (\<lambda>q. nat \<lfloor>q\<rfloor> + 2 * nat \<lceil>1 / q\<rceil>)"
    by simp
next
  fix q :: rat assume q: "\<not> q \<le> 0" "\<not> 2 \<le> q" "q < 1"
  then have f: "\<lfloor>q\<rfloor> = 0" "\<lfloor>q * 2\<rfloor> \<le> 1" by linarith+
  have x: "1 < 1 / q" using q by (simp add: field_simps)
  then have c2: "2 \<le> \<lceil>1 / q\<rceil>" by linarith
  have "1 / (q * 2) = (1 / q) / 2" by simp
  also have "\<dots> \<le> of_int \<lceil>1 / q\<rceil> / 2" by (simp add: divide_right_mono)
  also have "\<dots> \<le> of_int (\<lceil>1 / q\<rceil> - 1)" using c2 by simp
  finally have "\<lceil>1 / (q * 2)\<rceil> \<le> \<lceil>1 / q\<rceil> - 1" by (rule ceiling_le)
  then have c: "nat \<lceil>1 / (q * 2)\<rceil> + 1 \<le> nat \<lceil>1 / q\<rceil>"
    using c2 by linarith
  have "nat \<lfloor>q * 2\<rfloor> \<le> 1" "nat \<lfloor>q\<rfloor> = 0"
    using f by linarith+
  with c show "(q * 2, q) \<in> measure (\<lambda>q. nat \<lfloor>q\<rfloor> + 2 * nat \<lceil>1 / q\<rceil>)"
    by simp
qed

declare ilog2.simps [simp del]

text \<open>The nearest integer, a tie going to the even one.\<close>

definition round_even :: "rat \<Rightarrow> int" where
  "round_even m =
     (let f = \<lfloor>m\<rfloor>; d = m - of_int f
      in if d < 1 / 2 then f else if 1 / 2 < d then f + 1 else if even f then f else f + 1)"

text \<open>
  The double nearest to \<open>q\<close>. A double of binary exponent \<open>e\<close> is a multiple of
  \<open>2 powi (e - 52)\<close> (53 significant bits); below the normal range, where \<open>e\<close> would be
  less than -1022, the spacing stays at \<open>2 powi (- 1074)\<close>; a result that rounds to
  \<open>2 ^ 1024\<close> or more in magnitude is an infinity.
\<close>

definition fl :: "rat \<Rightarrow> number" where
  "fl q =
     (let e = max (ilog2 \<bar>q\<bar>) (- 1022);
          ulp = 2 powi (e - 52);
          r = round_even (q / ulp)
      in if 1023 < e \<or> (e = 1023 \<and> \<bar>r\<bar> = 9007199254740992) then (if 0 < q then PInf else NInf)
         else Num (of_int r * ulp))"

fun js_plus :: "number \<Rightarrow> number \<Rightarrow> number" where
  "js_plus (Num a) (Num b) = fl (a + b)"
| "js_plus NaN _ = NaN"
| "js_plus _ NaN = NaN"
| "js_plus PInf NInf = NaN"
| "js_plus NInf PInf = NaN"
| "js_plus PInf _ = PInf"
| "js_plus _ PInf = PInf"
| "js_plus _ _ = NInf"

fun js_times :: "number \<Rightarrow> number \<Rightarrow> number" where
  "js_times (Num a) (Num b) = fl (a * b)"
| "js_times NaN _ = NaN"
| "js_times _ NaN = NaN"
| "js_times x y = inf_of_sign (sign_of x * sign_of y)"

fun js_divide :: "number \<Rightarrow> number \<Rightarrow> number" where
  "js_divide (Num a) (Num b) = (if b = 0 then inf_of_sign (sgn a) else fl (a / b))"
| "js_divide NaN _ = NaN"
| "js_divide _ NaN = NaN"
| "js_divide (Num a) _ = Num 0"
| "js_divide x (Num b) = inf_of_sign (sign_of x * (if b < 0 then - 1 else 1))"
| "js_divide _ _ = NaN"

text \<open>A counter printed inside a template string.\<close>

definition digit_char :: "nat \<Rightarrow> char" where
  "digit_char d = char_of (48 + d)"

fun decimal :: "nat \<Rightarrow> string" where
  "decimal n = (if n < 10 then [digit_char n] else decimal (n div 10) @ [digit_char (n mod 10)])"

declare decimal.simps [simp del]


section \<open>The persistent store\<close>

text \<open>
  The Supabase client answers every request with \<^verbatim>\<open>{ data, error }\<close>; it does not throw.
  The store is the catalog table \<^verbatim>\<open>ebay_books\<close> and the table
  \<^verbatim>\<open>fetcher_checkpoints\<close>, whose rows are unique on \<^verbatim>\<open>(seller, category_id)\<close>
  (the upserts' \<^verbatim>\<open>onConflict\<close> key). A row of the catalog is a map from column name to
  value; a column the row does not mention is \<^verbatim>\<open>NULL\<close>.

  \<open>faults\<close> is what the transport and the server will do to the coming requests, first
  request first: \<open>Some e\<close> fails that request with \<open>e\<close> and leaves the tables alone,
  \<open>None\<close> (or a list that has run out) lets it through. \<open>clock\<close> is the time
  \<^verbatim>\<open>new Date()\<close> reads, which \<^verbatim>\<open>sleep\<close> advances, and \<open>events\<close> the calls
  made and the lines printed so far, oldest first.
\<close>

record db_error =
  code :: string
  message :: string

type_synonym row = "string \<rightharpoonup> jsval"

record checkpoint_row =
  last_offset :: nat
  updated_at :: timestamp

datatype event =
    ConsoleLog string
  | ConsoleError string
  | WaitForKeepaTokens
  | GetProductByIsbn string
  | Sleep nat
  | DbSelectRange nat nat nat
  | DbInsert jsval "db_error option"
  | DbUpdate string obj "db_error option"
  | DbUpsertCheckpoint string string nat "db_error option"
  | ScrapeAllListings string string nat

record world =
  ebay_books :: "row list"
  fetcher_checkpoints :: "string \<times> string \<rightharpoonup> checkpoint_row"
  faults :: "db_error option list"
  clock :: timestamp
  events :: "event list"

definition emit :: "event \<Rightarrow> world \<Rightarrow> world" where
  "emit e w = w\<lparr>events := events w @ [e]\<rparr>"

definition take_fault :: "world \<Rightarrow> db_error option \<times> world" where
  "take_fault w = (case faults w of [] \<Rightarrow> (None, w) | f # fs \<Rightarrow> (f, w\<lparr>faults := fs\<rparr>))"

text \<open>What the store will answer to the next request: an error, or nothing.\<close>

definition next_fault :: "world \<Rightarrow> db_error option" where
  "next_fault w = (case faults w of [] \<Rightarrow> None | f # fs \<Rightarrow> f)"

text \<open>No request to come will fail.\<close>

definition store_healthy :: "world \<Rightarrow> bool" where
  "store_healthy w = list_all (\<lambda>f. f = None) (faults w)"

definition col :: "row \<Rightarrow> string \<Rightarrow> jsval" where
  "col r k = (case r k of None \<Rightarrow> JNull | Some v \<Rightarrow> v)"

definition unique_violation :: db_error where
  "unique_violation =
     \<lparr>code = ''23505'', message = ''duplicate key value violates unique constraint''\<rparr>"

definition no_rows :: db_error where
  "no_rows = \<lparr>code = ''PGRST116'', message = ''JSON object requested, multiple (or no) rows returned''\<rparr>"

text \<open>\<^verbatim>\<open>from(TABLE).insert(book)\<close>: the catalog key \<^verbatim>\<open>isbn\<close> is unique.\<close>

definition db_insert :: "row \<Rightarrow> world \<Rightarrow> db_error option \<times> world" where
  "db_insert book w =
     (case take_fault w of
        (Some e, w') \<Rightarrow> (Some e, emit (DbInsert (col book ''isbn'') (Some e)) w')
      | (None, w') \<Rightarrow>
          if list_ex (\<lambda>r. col r ''isbn'' = col book ''isbn'') (ebay_books w')
          then (Some unique_violation, emit (DbInsert (col book ''isbn'') (Some unique_violation)) w')
          else (None, emit (DbInsert (col book ''isbn'') None) (w'\<lparr>ebay_books := ebay_books w' @ [book]\<rparr>)))"

text \<open>
  Ascending order on \<^verbatim>\<open>scraped_at\<close>, \<^verbatim>\<open>NULL\<close> last; rows of equal time keep the
  table's order.
\<close>

definition scraped_at_key :: "row \<Rightarrow> enat" where
  "scraped_at_key r = (case col r ''scraped_at'' of JTime t \<Rightarrow> enat t | _ \<Rightarrow> \<infinity>)"

text \<open>
  \<^verbatim>\<open>select('*').is('decision', null).order('scraped_at', {ascending: true}).range(lo, hi)\<close>,
  with \<^verbatim>\<open>.eq('seller', s)\<close> when the caller added it.
\<close>

definition pending_filter :: "string option \<Rightarrow> row \<Rightarrow> bool" where
  "pending_filter eq_seller r =
     (col r ''decision'' = JNull \<and>
      (case eq_seller of None \<Rightarrow> True | Some s \<Rightarrow> col r ''seller'' = JStr s))"

definition pending_rows :: "string option \<Rightarrow> row list \<Rightarrow> row list" where
  "pending_rows eq_seller rows = sort_key scraped_at_key (filter (pending_filter eq_seller) rows)"

definition db_select_pending ::
  "string option \<Rightarrow> nat \<Rightarrow> nat \<Rightarrow> world \<Rightarrow> (db_error + row list) \<times> world" where
  "db_select_pending eq_seller lo hi w =
     (case take_fault w of
        (Some e, w') \<Rightarrow> (Inl e, emit (DbSelectRange lo hi 0) w')
      | (None, w') \<Rightarrow>
          (let data = take (Suc hi - lo) (drop lo (pending_rows eq_seller (ebay_books w')))
           in (Inr data, emit (DbSelectRange lo hi (length data)) w')))"

text \<open>\<^verbatim>\<open>from(TABLE).update(cleanEval).eq('isbn', isbn)\<close>.\<close>

definition db_update :: "obj \<Rightarrow> string \<Rightarrow> world \<Rightarrow> db_error option \<times> world" where
  "db_update patch isbn w =
     (case take_fault w of
        (Some e, w') \<Rightarrow> (Some e, emit (DbUpdate isbn patch (Some e)) w')
      | (None, w') \<Rightarrow>
          (None, emit (DbUpdate isbn patch None)
             (w'\<lparr>ebay_books :=
                 map (\<lambda>r. if col r ''isbn'' = JStr isbn then r ++ map_of patch else r)
                   (ebay_books w')\<rparr>)))"

text \<open>
  \<^verbatim>\<open>from(CHECKPOINT_TABLE).select('last_offset').eq(..).eq(..).single()\<close>: an error when
  no row matches.
\<close>

definition db_single_checkpoint ::
  "string \<Rightarrow> string \<Rightarrow> world \<Rightarrow> (db_error + checkpoint_row) \<times> world" where
  "db_single_checkpoint seller categoryId w =
     (case take_fault w of
        (Some e, w') \<Rightarrow> (Inl e, w')
      | (None, w') \<Rightarrow>
          (case fetcher_checkpoints w' (seller, categoryId) of
             None \<Rightarrow> (Inl no_rows, w')
           | Some c \<Rightarrow> (Inr c, w')))"

text \<open>\<^verbatim>\<open>from(CHECKPOINT_TABLE).upsert({...}, { onConflict: 'seller,category_id' })\<close>.\<close>

definition db_upsert_checkpoint ::
  "string \<Rightarrow> string \<Rightarrow> nat \<Rightarrow> timestamp \<Rightarrow> world \<Rightarrow> db_error option \<times> world" where
  "db_upsert_checkpoint seller categoryId off now w =
     (case take_fault w of
        (Some e, w') \<Rightarrow> (Some e, emit (DbUpsertCheckpoint seller categoryId off (Some e)) w')
      | (None, w') \<Rightarrow>
          (None, emit (DbUpsertCheckpoint seller categoryId off None)
             (w'\<lparr>fetcher_checkpoints :=
                 (fetcher_checkpoints w')((seller, categoryId) \<mapsto>
                    \<lparr>last_offset = off, updated_at = now\<rparr>)\<rparr>)))"


section \<open>supabase.ts\<close>

text \<open>
  The \<^verbatim>\<open>isbn\<close> of a book, which the interfaces \<^verbatim>\<open>EbayBook\<close> and \<^verbatim>\<open>ScrapedBook\<close>
  type as a string.
\<close>

definition isbn_of :: "row \<Rightarrow> string" where
  "isbn_of book = (case col book ''isbn'' of JStr s \<Rightarrow> s | _ \<Rightarrow> [])"

record insert_counts =
  saved :: nat
  duplicates :: nat
  errors :: nat

fun insertBooks_loop :: "row list \<Rightarrow> insert_counts \<Rightarrow> world \<Rightarrow> insert_counts \<times> world" where
  "insertBooks_loop [] c w = (c, w)"
| "insertBooks_loop (book # books) c w =
     (case db_insert book w of
        (Some e, w') \<Rightarrow>
          if code e = ''23505''
          then insertBooks_loop books (c\<lparr>duplicates := duplicates c + 1\<rparr>) w'
          else insertBooks_loop books (c\<lparr>errors := errors c + 1\<rparr>)
                 (emit (ConsoleError (''  Insert error for '' @ isbn_of book @ '': '' @ message e)) w')
      | (None, w') \<Rightarrow> insertBooks_loop books (c\<lparr>saved := saved c + 1\<rparr>) w')"

definition insertBooks :: "row list \<Rightarrow> world \<Rightarrow> insert_counts \<times> world" where
  "insertBooks books w = insertBooks_loop books \<lparr>saved = 0, duplicates = 0, errors = 0\<rparr> w"

definition pageSize :: nat where
  "pageSize = 1000"

text \<open>\<^verbatim>\<open>if (seller) query = query.eq('seller', seller)\<close>: an empty string is falsy.\<close>

definition seller_eq :: "string option \<Rightarrow> string option" where
  "seller_eq seller = (case seller of None \<Rightarrow> None | Some s \<Rightarrow> if s = [] then None else Some s)"

function getPendingBooks_loop ::
  "string option \<Rightarrow> nat \<Rightarrow> row list \<Rightarrow> world \<Rightarrow> row list \<times> world" where
  "getPendingBooks_loop seller frm allPending w =
     (case db_select_pending (seller_eq seller) frm (frm + pageSize - 1) w of
        (Inl e, w') \<Rightarrow>
          (allPending, emit (ConsoleError (''Error fetching pending books: '' @ message e)) w')
      | (Inr data, w') \<Rightarrow>
          if data = [] then (allPending, w')
          else if length data < pageSize then (allPending @ data, w')
          else getPendingBooks_loop seller (frm + pageSize) (allPending @ data) w')"
  by pat_completeness auto
termination
proof (relation "measure (\<lambda>(seller, frm, allPending, w).
         length (pending_rows (seller_eq seller) (ebay_books w)) - frm)")
qed (auto simp: db_select_pending_def take_fault_def emit_def pageSize_def Let_def
       split: list.splits option.splits)

declare getPendingBooks_loop.simps [simp del]

definition getPendingBooks :: "string option \<Rightarrow> world \<Rightarrow> row list \<times> world" where
  "getPendingBooks seller w = getPendingBooks_loop seller 0 [] w"

text \<open>
  \<^verbatim>\<open>cleanEval[key] = value\<close> for every entry whose value is not \<^verbatim>\<open>undefined\<close>: an
  assignment to a property the object has replaces its value, any other adds the property
  at the end.
\<close>

fun assign :: "string \<Rightarrow> jsval \<Rightarrow> obj \<Rightarrow> obj" where
  "assign key v [] = [(key, v)]"
| "assign key v ((k, u) # rest) = (if k = key then (k, v) # rest else (k, u) # assign key v rest)"

fun strip_undefined :: "obj \<Rightarrow> obj \<Rightarrow> obj" where
  "strip_undefined [] cleanEval = cleanEval"
| "strip_undefined ((key, v) # entries) cleanEval =
     strip_undefined entries (if v \<noteq> JUndefined then assign key v cleanEval else cleanEval)"

definition updateBookEvaluation :: "string \<Rightarrow> obj \<Rightarrow> world \<Rightarrow> bool \<times> world" where
  "updateBookEvaluation isbn evaluation w =
     (let cleanEval = strip_undefined evaluation [(''evaluated_at'', JTime (clock w))]
      in case db_update cleanEval isbn w of
           (Some e, w') \<Rightarrow>
             (False, emit (ConsoleError (''  Update error for '' @ isbn @ '': '' @ message e)) w')
         | (None, w') \<Rightarrow> (True, w'))"

definition getCheckpoint :: "string \<Rightarrow> string \<Rightarrow> world \<Rightarrow> nat \<times> world" where
  "getCheckpoint seller categoryId w =
     (case db_single_checkpoint seller categoryId w of
        (Inl e, w') \<Rightarrow> (0, w')
      | (Inr data, w') \<Rightarrow> (last_offset data, w'))"

definition saveCheckpoint :: "string \<Rightarrow> string \<Rightarrow> nat \<Rightarrow> world \<Rightarrow> world" where
  "saveCheckpoint seller categoryId off w =
     (case db_upsert_checkpoint seller categoryId off (clock w) w of
        (Some e, w') \<Rightarrow> emit (ConsoleError (''  Checkpoint save error: '' @ message e)) w'
      | (None, w') \<Rightarrow> w')"

definition resetCheckpoint :: "string \<Rightarrow> string \<Rightarrow> world \<Rightarrow> world" where
  "resetCheckpoint seller categoryId w =
     (case db_upsert_checkpoint seller categoryId 0 (clock w) w of
        (Some e, w') \<Rightarrow> emit (ConsoleError (''  Checkpoint reset error: '' @ message e)) w'
      | (None, w') \<Rightarrow> w')"


section \<open>evaluate.ts\<close>

text \<open>
  \<^verbatim>\<open>keepaApi.js\<close> is imported: the lookup, the evaluation function and the pacing delay
  are parameters. A lookup resolves to a product or to a falsy value (\<open>None\<close>), or its
  promise rejects, which \<^verbatim>\<open>evaluatePendingBooks\<close> does not catch; what it answers
  depends on the ISBN alone. The result of
  \<^verbatim>\<open>evaluateBook\<close> has the fields \<^verbatim>\<open>evaluate.ts\<close> reads; \<^verbatim>\<open>decision\<close> and
  \<^verbatim>\<open>asin\<close> are passed to \<^verbatim>\<open>updateBookEvaluation\<close> as they are, so they have its
  parameter's types \<^verbatim>\<open>'BUY' | 'REVIEW' | 'REJECT'\<close> and \<^verbatim>\<open>string | undefined\<close>.
\<close>

datatype verdict = BUY | REVIEW | REJECT

fun verdict_name :: "verdict \<Rightarrow> string" where
  "verdict_name BUY = ''BUY''"
| "verdict_name REVIEW = ''REVIEW''"
| "verdict_name REJECT = ''REJECT''"

record evaluation_result =
  decision :: verdict
  asin :: "string option"
  amazonPrice :: "number nullable"
  salesRank :: "number nullable"
  salesRankDrops90 :: "number nullable"
  fbaProfit :: "number nullable"
  fbmProfit :: "number nullable"
  amazonFlag :: "string nullable"
  binding :: "string nullable"
  weightLbs :: "number nullable"
  reason :: string

datatype 'raw reply = Rejects string | Resolves "'raw option"

record 'raw keepaApi =
  getProductByIsbn :: "string \<Rightarrow> 'raw reply"
  evaluateBook :: "'raw \<Rightarrow> number \<Rightarrow> evaluation_result"
  KEEPA_DELAY_MS :: nat

record counters =
  evaluated :: nat
  buy :: nat
  review :: nat
  reject :: nat
  noData :: nat

definition sleep :: "nat \<Rightarrow> world \<Rightarrow> world" where
  "sleep ms w = emit (Sleep ms) (w\<lparr>clock := clock w + ms\<rparr>)"

text \<open>
  A column that \<^verbatim>\<open>EbayBook\<close> types as \<^verbatim>\<open>number\<close> (\<^verbatim>\<open>price\<close>, \<^verbatim>\<open>shipping\<close>), as
  an operand of the arithmetic; a \<^verbatim>\<open>null\<close> there counts as 0.
\<close>

definition num_col :: "row \<Rightarrow> string \<Rightarrow> number" where
  "num_col r k = (case col r k of JNum n \<Rightarrow> n | JNull \<Rightarrow> Num 0 | _ \<Rightarrow> NaN)"

text \<open>Guard against numeric overflow for DB integer columns.\<close>

definition safeInt :: "number nullable \<Rightarrow> number option" where
  "safeInt v =
     (case v of
        Undefined \<Rightarrow> None
      | Null \<Rightarrow> None
      | Val x \<Rightarrow>
          if \<not> Number_isFinite x then None
          else (let rounded = Math_round x
                in if js_gt rounded (Num 2000000000) \<or> js_lt rounded (Num (- 2000000000))
                   then None else Some rounded))"

text \<open>\<^verbatim>\<open>x != null ? Math.round(x * 100) : undefined\<close>\<close>

definition to_cents :: "number nullable \<Rightarrow> number nullable" where
  "to_cents x = (case x of Val d \<Rightarrow> Val (Math_round (js_times d (Num 100))) | _ \<Rightarrow> Undefined)"

text \<open>\<^verbatim>\<open>w != null ? Math.round(w * 16 * 10) / 10 : undefined\<close>\<close>

definition to_weightOz :: "number nullable \<Rightarrow> number nullable" where
  "to_weightOz x =
     (case x of
        Val lbs \<Rightarrow> Val (js_divide (Math_round (js_times (js_times lbs (Num 16)) (Num 10))) (Num 10))
      | _ \<Rightarrow> Undefined)"

definition opt_num :: "number option \<Rightarrow> jsval" where
  "opt_num v = (case v of None \<Rightarrow> JUndefined | Some n \<Rightarrow> JNum n)"

definition opt_str :: "string option \<Rightarrow> jsval" where
  "opt_str v = (case v of None \<Rightarrow> JUndefined | Some s \<Rightarrow> JStr s)"

text \<open>\<^verbatim>\<open>s ?? undefined\<close>\<close>

definition coalesce_str :: "string nullable \<Rightarrow> jsval" where
  "coalesce_str v = (case v of Val s \<Rightarrow> JStr s | _ \<Rightarrow> JUndefined)"

text \<open>\<^verbatim>\<open>weightOz != null && Number.isFinite(weightOz) ? weightOz : undefined\<close>\<close>

definition finite_weight :: "number nullable \<Rightarrow> jsval" where
  "finite_weight v = (case v of Val x \<Rightarrow> if Number_isFinite x then JNum x else JUndefined | _ \<Rightarrow> JUndefined)"

text \<open>The object handed to \<^verbatim>\<open>updateBookEvaluation\<close> for a book that has Keepa data.\<close>

definition evaluation_fields :: "evaluation_result \<Rightarrow> obj" where
  "evaluation_fields result =
     (let amazonPriceCents = to_cents (amazonPrice result);
          fbaProfitCents = to_cents (fbaProfit result);
          fbmProfitCents = to_cents (fbmProfit result);
          weightOz = to_weightOz (weightLbs result)
      in [(''decision'', JStr (verdict_name (decision result))),
          (''asin'', opt_str (asin result)),
          (''amazon_price'', opt_num (safeInt amazonPriceCents)),
          (''sales_rank'', opt_num (safeInt (salesRank result))),
          (''sales_rank_drops_90'', opt_num (safeInt (salesRankDrops90 result))),
          (''fba_profit'', opt_num (safeInt fbaProfitCents)),
          (''fbm_profit'', opt_num (safeInt fbmProfitCents)),
          (''amazon_flag'', coalesce_str (amazonFlag result)),
          (''book_type'', coalesce_str (binding result)),
          (''weight_oz'', finite_weight weightOz)])"

text \<open>Buy price in dollars (price + shipping are stored in cents).\<close>

definition buyPriceDollars :: "row \<Rightarrow> number" where
  "buyPriceDollars book = js_divide (js_plus (num_col book ''price'') (num_col book ''shipping'')) (Num 100)"

text \<open>The dash and the arrow of the progress lines, in UTF-8.\<close>

definition em_dash :: string where
  "em_dash = [CHR 0xE2, CHR 0x80, CHR 0x94]"

definition right_arrow :: string where
  "right_arrow = [CHR 0xE2, CHR 0x86, CHR 0x92]"

text \<open>
  The two progress lines: \<^verbatim>\<open>  [k/n] isbn \<close>, then the dash, \<^verbatim>\<open>no Keepa data\<close>, the
  arrow and \<^verbatim>\<open>REJECT\<close>; or the arrow, the decision and the reason in brackets.
\<close>

definition no_data_line :: "nat \<Rightarrow> nat \<Rightarrow> string \<Rightarrow> string" where
  "no_data_line k n isbn =
     ''  ['' @ decimal k @ ''/'' @ decimal n @ ''] '' @ isbn @ '' '' @ em_dash
       @ '' no Keepa data '' @ right_arrow @ '' REJECT''"

definition verdict_line :: "nat \<Rightarrow> nat \<Rightarrow> string \<Rightarrow> evaluation_result \<Rightarrow> string" where
  "verdict_line k n isbn result =
     ''  ['' @ decimal k @ ''/'' @ decimal n @ ''] '' @ isbn @ '' '' @ right_arrow
       @ '' '' @ verdict_name (decision result) @ '' ('' @ reason result @ '')''"

text \<open>
  One turn of the loop over the pending books; \<open>n\<close> is \<^verbatim>\<open>pending.length\<close>. \<open>Inl\<close> is the
  rejection of the lookup, which ends the run.
\<close>

definition evaluate_one ::
  "'raw keepaApi \<Rightarrow> nat \<Rightarrow> row \<Rightarrow> counters \<Rightarrow> world \<Rightarrow> (string + counters) \<times> world" where
  "evaluate_one api n book c w =
     (let w1 = emit WaitForKeepaTokens w;
          w2 = emit (GetProductByIsbn (isbn_of book)) w1
      in case getProductByIsbn api (isbn_of book) of
           Rejects err \<Rightarrow> (Inl err, w2)
         | Resolves None \<Rightarrow>
             (let (ok, w3) = updateBookEvaluation (isbn_of book) [(''decision'', JStr ''REJECT'')] w2;
                  c1 = c\<lparr>noData := noData c + 1\<rparr>;
                  c2 = c1\<lparr>evaluated := evaluated c1 + 1\<rparr>;
                  w4 = emit (ConsoleLog (no_data_line (evaluated c2) n (isbn_of book))) w3
              in (Inr c2, sleep (KEEPA_DELAY_MS api) w4))
         | Resolves (Some raw) \<Rightarrow>
             (let result = evaluateBook api raw (buyPriceDollars book);
                  (ok, w3) = updateBookEvaluation (isbn_of book) (evaluation_fields result) w2;
                  c1 = (if decision result = BUY then c\<lparr>buy := buy c + 1\<rparr>
                        else if decision result = REVIEW then c\<lparr>review := review c + 1\<rparr>
                        else c\<lparr>reject := reject c + 1\<rparr>);
                  c2 = c1\<lparr>evaluated := evaluated c1 + 1\<rparr>;
                  w4 = emit (ConsoleLog (verdict_line (evaluated c2) n (isbn_of book) result)) w3
              in (Inr c2, sleep (KEEPA_DELAY_MS api) w4)))"

fun evaluate_loop ::
  "'raw keepaApi \<Rightarrow> nat \<Rightarrow> row list \<Rightarrow> counters \<Rightarrow> world \<Rightarrow> (string + counters) \<times> world" where
  "evaluate_loop api n [] c w = (Inr c, w)"
| "evaluate_loop api n (book # rest) c w =
     (case evaluate_one api n book c w of
        (Inl err, w') \<Rightarrow> (Inl err, w')
      | (Inr c', w') \<Rightarrow> evaluate_loop api n rest c' w')"

definition evaluatePendingBooks ::
  "'raw keepaApi \<Rightarrow> string option \<Rightarrow> world \<Rightarrow> (string + counters) \<times> world" where
  "evaluatePendingBooks api seller w =
     (let (pending, w1) = getPendingBooks seller w;
          w2 = emit (ConsoleLog (CHR 0x0A # ''Evaluating '' @ decimal (length pending)
                       @ '' pending books...'')) w1;
          w3 = (if length pending > 0 then emit WaitForKeepaTokens w2 else w2)
      in evaluate_loop api (length pending) pending
           \<lparr>evaluated = 0, buy = 0, review = 0, reject = 0, noData = 0\<rparr> w3)"


section \<open>The scraper\<close>

text \<open>
  \<^verbatim>\<open>scrapeAllListings\<close> (\<^verbatim>\<open>ebayApi.js\<close>) is imported. It reaches the store only through
  the two callbacks \<^verbatim>\<open>index.ts\<close> hands it, and both return nothing, so one call of it
  is the callbacks it makes, in order, the dedup index as it leaves it, and how it ends:
  a result, or an exception (\<open>Inl\<close>).
\<close>

record scrape_result =
  totalScraped :: nat
  totalWithISBN :: nat
  totalNew :: nat
  completed :: bool

datatype callback = OnPage "row list" | OnCheckpoint nat

record scrape_run =
  calls :: "callback list"
  seen :: "string set"
  outcome :: "string + scrape_result"

type_synonym scraper = "string \<Rightarrow> string \<Rightarrow> string set \<Rightarrow> nat \<Rightarrow> scrape_run"

definition page_size :: nat where
  "page_size = 200"

definition catalog_key :: "row \<Rightarrow> string option" where
  "catalog_key l = (case col l ''isbn'' of JStr s \<Rightarrow> Some s | _ \<Rightarrow> None)"

definition known :: "string set \<Rightarrow> row \<Rightarrow> bool" where
  "known index l = (case catalog_key l of Some k \<Rightarrow> k \<in> index | None \<Rightarrow> False)"

text \<open>
  Modelled from the spec: \<^verbatim>\<open>scrapeAllListings\<close>, whose source \<^verbatim>\<open>ebayApi.js\<close> is missing.
  Section 4.1: it fetches successive pages of the fixed page size from the starting
  offset; for each page it filters out the listings whose catalog key is in the dedup
  index and passes the remaining ones to the insert callback; after each page it invokes
  the checkpoint-save callback with the next offset; completion is signalled when a
  fetched page is empty or shorter than the page size; when a new-item threshold is
  configured and exceeded it stops with the checkpoint preserved; a failed fetch is
  surfaced to the caller; it returns the totals scraped, bearing a catalog key, and new.
  \<open>results\<close> is the marketplace's result set for the seller and the query, and
  \<open>fetch_error off\<close> the failure, if any, of the fetch at offset \<open>off\<close>.
\<close>

function scrape_pages ::
  "row list \<Rightarrow> (nat \<Rightarrow> string option) \<Rightarrow> nat option \<Rightarrow> nat \<Rightarrow> string set \<Rightarrow> scrape_result
     \<Rightarrow> callback list \<Rightarrow> scrape_run" where
  "scrape_pages results fetch_error maxNew off index tot cbs =
     (case fetch_error off of
        Some err \<Rightarrow> \<lparr>calls = cbs, seen = index, outcome = Inl err\<rparr>
      | None \<Rightarrow>
          (let page = take page_size (drop off results);
               keyed = filter (\<lambda>l. catalog_key l \<noteq> None) page;
               fresh = filter (\<lambda>l. \<not> known index l) keyed;
               index' = index \<union> set (List.map_filter catalog_key fresh);
               tot' = \<lparr>totalScraped = totalScraped tot + length page,
                       totalWithISBN = totalWithISBN tot + length keyed,
                       totalNew = totalNew tot + length fresh,
                       completed = False\<rparr>;
               cbs' = cbs @ [OnPage fresh, OnCheckpoint (off + page_size)]
           in if length page < page_size
              then \<lparr>calls = cbs', seen = index', outcome = Inr (tot'\<lparr>completed := True\<rparr>)\<rparr>
              else if (case maxNew of Some m \<Rightarrow> m < totalNew tot' | None \<Rightarrow> False)
              then \<lparr>calls = cbs', seen = index', outcome = Inr tot'\<rparr>
              else scrape_pages results fetch_error maxNew (off + page_size) index' tot' cbs'))"
  by pat_completeness auto
termination
proof (relation "measure (\<lambda>(results, fetch_error, maxNew, off, index, tot, cbs). length results - off)")
qed (auto simp: page_size_def)

declare scrape_pages.simps [simp del]

definition scrapeAllListings ::
  "row list \<Rightarrow> (nat \<Rightarrow> string option) \<Rightarrow> nat option \<Rightarrow> string set \<Rightarrow> nat \<Rightarrow> scrape_run" where
  "scrapeAllListings results fetch_error maxNew existingISBNs startOffset =
     scrape_pages results fetch_error maxNew startOffset existingISBNs
       \<lparr>totalScraped = 0, totalWithISBN = 0, totalNew = 0, completed = False\<rparr> []"


section \<open>index.ts\<close>

text \<open>
  The first \<^verbatim>\<open>main\<close> of \<^verbatim>\<open>index.ts\<close>, the one that resets a checkpoint. Its
  \<^verbatim>\<open>console.log\<close> lines are left out; they print and do nothing else. (The second
  \<^verbatim>\<open>main\<close> in that file keys the checkpoint by \<^verbatim>\<open>search.key\<close>, pauses a crawl for
  evaluation, and never calls \<^verbatim>\<open>resetCheckpoint\<close>.)
\<close>

record search =
  name :: string
  query :: string

text \<open>Load all existing ISBNs from DB (paginated) into a set for dedup.\<close>

definition db_select_isbns :: "nat \<Rightarrow> nat \<Rightarrow> world \<Rightarrow> (db_error + row list) \<times> world" where
  "db_select_isbns lo hi w =
     (case take_fault w of
        (Some e, w') \<Rightarrow> (Inl e, emit (DbSelectRange lo hi 0) w')
      | (None, w') \<Rightarrow>
          (let data = take (Suc hi - lo) (drop lo (ebay_books w'))
           in (Inr data, emit (DbSelectRange lo hi (length data)) w')))"

function getExistingISBNs_loop :: "nat \<Rightarrow> string set \<Rightarrow> world \<Rightarrow> string set \<times> world" where
  "getExistingISBNs_loop frm isbns w =
     (case db_select_isbns frm (frm + pageSize - 1) w of
        (Inl e, w') \<Rightarrow> (isbns, emit (ConsoleError (''Error loading existing ISBNs: '' @ message e)) w')
      | (Inr data, w') \<Rightarrow>
          if data = [] then (isbns, w')
          else if length data < pageSize then (isbns \<union> isbn_of ` set data, w')
          else getExistingISBNs_loop (frm + pageSize) (isbns \<union> isbn_of ` set data) w')"
  by pat_completeness auto
termination
proof (relation "measure (\<lambda>(frm, isbns, w). length (ebay_books w) - frm)")
qed (auto simp: db_select_isbns_def take_fault_def emit_def pageSize_def Let_def
       split: list.splits option.splits)

declare getExistingISBNs_loop.simps [simp del]

definition getExistingISBNs :: "world \<Rightarrow> string set \<times> world" where
  "getExistingISBNs w =
     (let (isbns, w') = getExistingISBNs_loop 0 {} w
      in (isbns, emit (ConsoleLog (''Loaded '' @ decimal (card isbns) @ '' existing ISBNs from DB'')) w'))"

text \<open>
  The two callbacks, run in the order the scraper makes them: a page goes to
  \<^verbatim>\<open>insertBooks\<close> and its counts are added to the totals; an offset goes to
  \<^verbatim>\<open>saveCheckpoint\<close>.
\<close>

fun run_callbacks ::
  "string \<Rightarrow> string \<Rightarrow> callback list \<Rightarrow> nat \<times> nat \<Rightarrow> world \<Rightarrow> (nat \<times> nat) \<times> world" where
  "run_callbacks seller q [] tot w = (tot, w)"
| "run_callbacks seller q (OnPage books # cbs) (newTotal, skippedTotal) w =
     (let (insertResult, w') = insertBooks books w
      in run_callbacks seller q cbs
           (newTotal + saved insertResult, skippedTotal + duplicates insertResult) w')"
| "run_callbacks seller q (OnCheckpoint nextOffset # cbs) tot w =
     run_callbacks seller q cbs tot (saveCheckpoint seller q nextOffset w)"

text \<open>The body of the loop over the searches of one seller: the \<^verbatim>\<open>try\<close> and its \<^verbatim>\<open>catch\<close>.\<close>

definition run_search ::
  "scraper \<Rightarrow> string \<Rightarrow> search \<Rightarrow> string set \<times> nat \<times> nat \<Rightarrow> world
     \<Rightarrow> (string set \<times> nat \<times> nat) \<times> world" where
  "run_search scrape seller srch st w =
     (case st of (existingISBNs, tot) \<Rightarrow>
        (let (startOffset, w1) = getCheckpoint seller (query srch) w;
             w2 = emit (ScrapeAllListings seller (query srch) startOffset) w1;
             run = scrape seller (query srch) existingISBNs startOffset;
             (tot', w3) = run_callbacks seller (query srch) (calls run) tot w2
         in case outcome run of
              Inl err \<Rightarrow>
                ((seen run, tot'), emit (ConsoleError (''  '' @ name srch @ '': ERROR - '' @ err)) w3)
            | Inr result \<Rightarrow>
                ((seen run, tot'),
                 if completed result then resetCheckpoint seller (query srch) w3 else w3)))"

definition main ::
  "'raw keepaApi \<Rightarrow> scraper \<Rightarrow> string list \<Rightarrow> search list \<Rightarrow> world
     \<Rightarrow> (string + counters \<times> nat \<times> nat) \<times> world" where
  "main api scrape SELLERS SEARCHES w =
     (case evaluatePendingBooks api None w of
        (Inl err, w1) \<Rightarrow> (Inl err, emit (ConsoleError (''Fatal error: '' @ err)) w1)
      | (Inr evalResult, w1) \<Rightarrow>
          (let (existingISBNs, w2) = getExistingISBNs w1;
               ((index, tot), w3) =
                 fold (\<lambda>seller. fold (\<lambda>srch (st, v). run_search scrape seller srch st v) SEARCHES)
                   SELLERS ((existingISBNs, 0, 0), w2)
           in (Inr (evalResult, tot), w3)))"


section \<open>Reading a trace\<close>

text \<open>The answers of the store to the inserts, the updates and the checkpoint upserts.\<close>

fun insert_attempts :: "event list \<Rightarrow> (jsval \<times> db_error option) list" where
  "insert_attempts [] = []"
| "insert_attempts (DbInsert k r # es) = (k, r) # insert_attempts es"
| "insert_attempts (e # es) = insert_attempts es"

fun upserts :: "event list \<Rightarrow> ((string \<times> string) \<times> nat \<times> db_error option) list" where
  "upserts [] = []"
| "upserts (DbUpsertCheckpoint s c off r # es) = ((s, c), off, r) # upserts es"
| "upserts (e # es) = upserts es"

fun saved_offsets :: "callback list \<Rightarrow> nat list" where
  "saved_offsets [] = []"
| "saved_offsets (OnCheckpoint off # cbs) = off # saved_offsets cbs"
| "saved_offsets (cb # cbs) = saved_offsets cbs"

text \<open>The offset of the last upsert for a key that the store accepted.\<close>

fun last_stored :: "string \<times> string \<Rightarrow> ((string \<times> string) \<times> nat \<times> db_error option) list \<Rightarrow> nat option" where
  "last_stored key [] = None"
| "last_stored key ((k, off, r) # us) =
     (case last_stored key us of
        Some n \<Rightarrow> Some n
      | None \<Rightarrow> if k = key \<and> r = None then Some off else None)"

definition is_lookup :: "event \<Rightarrow> bool" where
  "is_lookup e = (case e of GetProductByIsbn _ \<Rightarrow> True | _ \<Rightarrow> False)"

text \<open>What \<^verbatim>\<open>updateBookEvaluation\<close> prints for the answer \<open>f\<close> of the store.\<close>

definition update_log :: "string \<Rightarrow> db_error option \<Rightarrow> event list" where
  "update_log isbn f = (case f of None \<Rightarrow> [] | Some e \<Rightarrow> [ConsoleError (''  Update error for '' @ isbn @ '': '' @ message e)])"

text \<open>
  What \<^verbatim>\<open>getPendingBooks\<close> may leave in the trace: the read of one page of
  \<open>pageSize\<close> rows, or its error line.
\<close>

definition paging_event :: "event \<Rightarrow> bool" where
  "paging_event e =
     (case e of
        DbSelectRange lo hi n \<Rightarrow> Suc hi = lo + pageSize \<and> n \<le> pageSize
      | ConsoleError m \<Rightarrow> True
      | _ \<Rightarrow> False)"

text \<open>
  Every lookup in a trace comes right after an acquisition of a Keepa token: wherever
  the trace is cut before a lookup, the part before the cut ends with
  \<open>WaitForKeepaTokens\<close>.
\<close>

definition lookups_guarded :: "event list \<Rightarrow> bool" where
  "lookups_guarded es =
     (\<forall>before isbn after. es = before @ GetProductByIsbn isbn # after
        \<longrightarrow> (\<exists>earlier. before = earlier @ [WaitForKeepaTokens]))"

text \<open>
  What \<^verbatim>\<open>evaluateBook\<close> decides for a book that Keepa has data on; \<open>None\<close> for a book
  it has no data on or whose lookup fails.
\<close>

definition verdict_of :: "'raw keepaApi \<Rightarrow> row \<Rightarrow> verdict option" where
  "verdict_of api book =
     (case getProductByIsbn api (isbn_of book) of
        Resolves (Some raw) \<Rightarrow> Some (decision (evaluateBook api raw (buyPriceDollars book)))
      | _ \<Rightarrow> None)"

text \<open>The answers of the store to the updates that write the decision \<^verbatim>\<open>REJECT\<close>.\<close>

fun rejections :: "event list \<Rightarrow> db_error option list" where
  "rejections [] = []"
| "rejections (DbUpdate isbn patch r # es) =
     (if map_of patch ''decision'' = Some (JStr ''REJECT'') then r # rejections es
      else rejections es)"
| "rejections (e # es) = rejections es"


text \<open>What \<^verbatim>\<open>saveCheckpoint\<close> and \<^verbatim>\<open>resetCheckpoint\<close> print for the answer \<open>f\<close> of the store.\<close>

definition save_log :: "db_error option \<Rightarrow> event list" where
  "save_log f = (case f of None \<Rightarrow> [] | Some e \<Rightarrow> [ConsoleError (''  Checkpoint save error: '' @ message e)])"

definition reset_log :: "db_error option \<Rightarrow> event list" where
  "reset_log f = (case f of None \<Rightarrow> [] | Some e \<Rightarrow> [ConsoleError (''  Checkpoint reset error: '' @ message e)])"


section \<open>Sample inputs\<close>

text \<open>
  A result of \<^verbatim>\<open>evaluateBook\<close>: a price and an FBM profit of thirty million dollars, a
  rank just above the bound, an FBA profit of \<^verbatim>\<open>1.345\<close> (the double that literal
  denotes, a little less than 1.345) and a weight of \<^verbatim>\<open>1.3447265625\<close> pounds.
\<close>

definition sample_result :: evaluation_result where
  "sample_result =
     \<lparr>decision = BUY, asin = Some ''B000TEST01'', amazonPrice = Val (Num 30000000),
      salesRank = Val (Num (8000000001 / 4)), salesRankDrops90 = Val PInf,
      fbaProfit = Val (Num (6057341498813317 / 4503599627370496)), fbmProfit = Val (Num (- 30000000)),
      amazonFlag = Null, binding = Val ''Paperback'', weightLbs = Val (Num (1377 / 1024)),
      reason = ''ok''\<rparr>"

definition book_a :: row where
  "book_a = [''isbn'' \<mapsto> JStr ''9780306406157'', ''seller'' \<mapsto> JStr ''alice'',
     ''price'' \<mapsto> JNum (Num 1000), ''shipping'' \<mapsto> JNum (Num 300),
     ''scraped_at'' \<mapsto> JTime 20, ''decision'' \<mapsto> JNull, ''amazon_price'' \<mapsto> JNull]"

definition book_b :: row where
  "book_b = [''isbn'' \<mapsto> JStr ''9781861972712'', ''seller'' \<mapsto> JStr ''bob'',
     ''price'' \<mapsto> JNum (Num 450), ''shipping'' \<mapsto> JNum (Num 0),
     ''scraped_at'' \<mapsto> JTime 10, ''decision'' \<mapsto> JNull, ''amazon_price'' \<mapsto> JNull]"

definition store0 :: world where
  "store0 = \<lparr>ebay_books = [book_a, book_b], fetcher_checkpoints = Map.empty, faults = [],
     clock = 1000, events = []\<rparr>"

text \<open>Keepa knows the first book and has nothing on the second.\<close>

definition sample_api :: "unit keepaApi" where
  "sample_api =
     \<lparr>getProductByIsbn = (\<lambda>isbn. if isbn = ''9780306406157'' then Resolves (Some ())
                               else if isbn = ''9781861972712'' then Resolves None
                               else Rejects ''timeout''),
      evaluateBook = (\<lambda>raw buyPrice.
         sample_result\<lparr>decision := (if js_lt buyPrice (Num 20) then BUY else REVIEW)\<rparr>),
      KEEPA_DELAY_MS = 1500\<rparr>"

definition no_data_evaluation :: obj where
  "no_data_evaluation = [(''decision'', JStr ''REJECT''), (''amazon_price'', JUndefined)]"

definition book_c :: row where
  "book_c = [''isbn'' \<mapsto> JStr ''9780131103627'', ''seller'' \<mapsto> JStr ''alice'',
     ''price'' \<mapsto> JNum (Num 799), ''shipping'' \<mapsto> JNum (Num 399), ''scraped_at'' \<mapsto> JTime 30]"

definition book_d :: row where
  "book_d = [''isbn'' \<mapsto> JStr ''9780262033848'', ''seller'' \<mapsto> JStr ''alice'',
     ''price'' \<mapsto> JNum (Num 2500), ''shipping'' \<mapsto> JNum (Num 0), ''scraped_at'' \<mapsto> JTime 31]"

definition timeout :: db_error where
  "timeout = \<lparr>code = ''57014'', message = ''canceling statement due to statement timeout''\<rparr>"

text \<open>A store whose fourth request from now will fail.\<close>

definition store1 :: world where
  "store1 = store0\<lparr>faults := [None, None, None, Some timeout]\<rparr>"



text \<open>A marketplace that has nothing for any seller and query, and a search.\<close>

definition empty_market :: scraper where
  "empty_market seller q index start = scrapeAllListings [] (\<lambda>off. None) None index start"

definition textbooks :: search where
  "textbooks = \<lparr>name = ''Textbooks'', query = ''textbook''\<rparr>"

text \<open>A store that holds a checkpoint at offset 400, and the same store out of reach.\<close>

definition store_resumed :: world where
  "store_resumed = store0\<lparr>fetcher_checkpoints :=
     [(''alice'', ''textbook'') \<mapsto> \<lparr>last_offset = 400, updated_at = 5\<rparr>]\<rparr>"

definition store_unreadable :: world where
  "store_unreadable = store_resumed\<lparr>faults := [Some timeout]\<rparr>"





section \<open>Objects and the fields that reach the store\<close>

lemma map_of_assign: "map_of (assign key v ob) = (map_of ob)(key \<mapsto> v)"
  by (induction ob) (auto simp: fun_eq_iff)

lemma map_of_strip_undefined:
  "distinct (map fst es) \<Longrightarrow>
   map_of (strip_undefined es ce) k =
     (case map_of es k of
        Some v \<Rightarrow> if v = JUndefined then map_of ce k else Some v
      | None \<Rightarrow> map_of ce k)"
proof (induction es arbitrary: ce)
  case Nil
  then show ?case by simp
next
  case (Cons e es)
  obtain key v where e: "e = (key, v)" by (cases e)
  from Cons.prems e have nin: "map_of es key = None" and d: "distinct (map fst es)"
    by (auto simp: map_of_eq_None_iff)
  show ?case
    using Cons.IH [OF d] nin
    by (auto simp: e map_of_assign split: option.splits)
qed

lemma distinct_evaluation_fields: "distinct (map fst (evaluation_fields r))"
  by (simp add: evaluation_fields_def Let_def)

lemma cleanEval_lookup:
  assumes "distinct (map fst ev)" and "''evaluated_at'' \<notin> fst ` set ev"
  shows "map_of (strip_undefined ev [(''evaluated_at'', JTime now)]) k =
     (if k = ''evaluated_at'' then Some (JTime now)
      else case map_of ev k of
             Some v \<Rightarrow> if v = JUndefined then None else Some v
           | None \<Rightarrow> None)"
proof -
  from assms(2) have "map_of ev ''evaluated_at'' = None"
    by (simp add: map_of_eq_None_iff)
  then show ?thesis
    by (auto simp: map_of_strip_undefined [OF assms(1)] split: option.splits)
qed

lemma decision_lookup:
  "map_of (strip_undefined (evaluation_fields r) [(''evaluated_at'', JTime now)]) ''decision''
     = Some (JStr (verdict_name (decision r)))"
proof -
  have "map_of (evaluation_fields r) ''decision'' = Some (JStr (verdict_name (decision r)))"
    by (simp add: evaluation_fields_def Let_def)
  then show ?thesis
    by (simp add: map_of_strip_undefined [OF distinct_evaluation_fields])
qed


lemma verdict_name_REJECT [simp]: "(verdict_name d = ''REJECT'') = (d = REJECT)"
  by (cases d) simp_all


section \<open>Rounding to the nearest double\<close>




lemma round_even_0 [simp]: "round_even 0 = 0"
  by (simp add: round_even_def)








lemma fl_zero [simp]: "fl 0 = Num 0"
  by (simp add: fl_def ilog2.simps [of 0])






section \<open>Numbers\<close>

lemma safeInt_Num:
  "safeInt (Val (Num q)) =
     (if 2000000000 < round q \<or> round q < - 2000000000 then None
      else Some (Num (of_int (round q))))"
proof -
  have a: "(2000000000 < (of_int (round q) :: rat)) = (2000000000 < round q)"
    by (metis of_int_less_iff of_int_numeral)
  have b: "((of_int (round q) :: rat) < - 2000000000) = (round q < - 2000000000)"
    by (metis of_int_less_iff of_int_numeral of_int_minus)
  show ?thesis
    by (simp add: safeInt_def Number_isFinite_def js_gt_def Let_def a b)
qed

lemma safeInt_other:
  "safeInt (Val NaN) = None" "safeInt (Val PInf) = None" "safeInt (Val NInf) = None"
  "safeInt Null = None" "safeInt Undefined = None"
  by (simp_all add: safeInt_def Number_isFinite_def)

lemma safeInt_Some_bounded:
  assumes "safeInt v = Some r"
  shows "\<exists>n::int. r = Num (of_int n) \<and> - 2000000000 \<le> n \<and> n \<le> 2000000000"
proof (cases v)
  case (Val x)
  with assms show ?thesis
    by (cases x) (auto simp: safeInt_Num safeInt_other split: if_splits)
qed (use assms in \<open>simp_all add: safeInt_other\<close>)

lemma field_lookups:
  "map_of (evaluation_fields r) ''amazon_price'' = Some (opt_num (safeInt (to_cents (amazonPrice r))))"
  "map_of (evaluation_fields r) ''sales_rank'' = Some (opt_num (safeInt (salesRank r)))"
  "map_of (evaluation_fields r) ''sales_rank_drops_90'' = Some (opt_num (safeInt (salesRankDrops90 r)))"
  "map_of (evaluation_fields r) ''fba_profit'' = Some (opt_num (safeInt (to_cents (fbaProfit r))))"
  "map_of (evaluation_fields r) ''fbm_profit'' = Some (opt_num (safeInt (to_cents (fbmProfit r))))"
  by (simp_all add: evaluation_fields_def Let_def)

lemma cleanEval_safeInt:
  assumes "map_of (evaluation_fields r) k = Some (opt_num (safeInt v))" and "k \<noteq> ''evaluated_at''"
  shows "map_of (strip_undefined (evaluation_fields r) [(''evaluated_at'', JTime now)]) k
           = map_option JNum (safeInt v)"
  using assms
  by (simp add: map_of_strip_undefined [OF distinct_evaluation_fields] opt_num_def
        split: option.splits)











section \<open>What each operation does to the world\<close>

lemma emit_proj [simp]:
  "events (emit e w) = events w @ [e]" "ebay_books (emit e w) = ebay_books w"
  "fetcher_checkpoints (emit e w) = fetcher_checkpoints w" "faults (emit e w) = faults w"
  "clock (emit e w) = clock w"
  by (simp_all add: emit_def)

lemma sleep_proj [simp]:
  "events (sleep ms w) = events w @ [Sleep ms]" "ebay_books (sleep ms w) = ebay_books w"
  "fetcher_checkpoints (sleep ms w) = fetcher_checkpoints w" "faults (sleep ms w) = faults w"
  "clock (sleep ms w) = clock w + ms"
  by (simp_all add: sleep_def)

lemma take_fault_eq: "take_fault w = (next_fault w, w\<lparr>faults := tl (faults w)\<rparr>)"
  by (cases "faults w") (simp_all add: take_fault_def next_fault_def)

lemma next_fault_emit [simp]: "next_fault (emit e w) = next_fault w"
  by (simp add: next_fault_def)

lemma healthy_next [simp]: "store_healthy w \<Longrightarrow> next_fault w = None"
  by (cases "faults w") (simp_all add: store_healthy_def next_fault_def)

lemma healthy_tl [simp]: "store_healthy w \<Longrightarrow> store_healthy (w\<lparr>faults := tl (faults w)\<rparr>)"
  by (cases "faults w") (simp_all add: store_healthy_def)

lemma healthy_emit [simp]: "store_healthy (emit e w) = store_healthy w"
  by (simp add: store_healthy_def)

lemma healthy_faults: "store_healthy w \<Longrightarrow> faults w' = tl (faults w) \<or> faults w' = faults w \<Longrightarrow> store_healthy w'"
  by (cases "faults w") (auto simp: store_healthy_def)

lemma db_update_eq:
  "db_update patch isbn w =
     (next_fault w,
      emit (DbUpdate isbn patch (next_fault w))
        (w\<lparr>faults := tl (faults w),
           ebay_books := (if next_fault w = None
              then map (\<lambda>r. if col r ''isbn'' = JStr isbn then r ++ map_of patch else r) (ebay_books w)
              else ebay_books w)\<rparr>))"
  by (cases "next_fault w") (simp_all add: db_update_def take_fault_eq emit_def)

lemma updateBookEvaluation_proj:
  "fst (updateBookEvaluation isbn ev w) = (next_fault w = None)"
  "events (snd (updateBookEvaluation isbn ev w)) =
     events w @ DbUpdate isbn (strip_undefined ev [(''evaluated_at'', JTime (clock w))]) (next_fault w)
       # update_log isbn (next_fault w)"
  "ebay_books (snd (updateBookEvaluation isbn ev w)) =
     (if next_fault w = None
      then map (\<lambda>r. if col r ''isbn'' = JStr isbn
                     then r ++ map_of (strip_undefined ev [(''evaluated_at'', JTime (clock w))]) else r)
             (ebay_books w)
      else ebay_books w)"
  "faults (snd (updateBookEvaluation isbn ev w)) = tl (faults w)"
  "clock (snd (updateBookEvaluation isbn ev w)) = clock w"
  "fetcher_checkpoints (snd (updateBookEvaluation isbn ev w)) = fetcher_checkpoints w"
  by (cases "next_fault w"; simp add: updateBookEvaluation_def db_update_eq Let_def update_log_def)+

lemma db_insert_events:
  "events (snd (db_insert book w)) = events w @ [DbInsert (col book ''isbn'') (fst (db_insert book w))]"
  by (cases "next_fault w") (simp_all add: db_insert_def take_fault_eq)

lemma db_select_pending_eq:
  "db_select_pending s lo hi w =
     (case next_fault w of
        Some e \<Rightarrow> (Inl e, emit (DbSelectRange lo hi 0) (w\<lparr>faults := tl (faults w)\<rparr>))
      | None \<Rightarrow>
          (Inr (take (Suc hi - lo) (drop lo (pending_rows s (ebay_books w)))),
           emit (DbSelectRange lo hi (length (take (Suc hi - lo) (drop lo (pending_rows s (ebay_books w))))))
             (w\<lparr>faults := tl (faults w)\<rparr>)))"
  by (cases "next_fault w") (simp_all add: db_select_pending_def take_fault_eq Let_def)


section \<open>Reading the pending books page by page\<close>

lemma getPendingBooks_loop_healthy:
  "store_healthy w \<Longrightarrow>
   fst (getPendingBooks_loop seller frm acc w) =
     acc @ drop frm (pending_rows (seller_eq seller) (ebay_books w))"
proof (induction seller frm acc w rule: getPendingBooks_loop.induct)
  case (1 seller frm allPending w)
  let ?rows = "pending_rows (seller_eq seller) (ebay_books w)"
  let ?data = "take pageSize (drop frm ?rows)"
  let ?w' = "emit (DbSelectRange frm (frm + pageSize - 1) (length ?data)) (w\<lparr>faults := tl (faults w)\<rparr>)"
  have sel: "db_select_pending (seller_eq seller) frm (frm + pageSize - 1) w = (Inr ?data, ?w')"
    using "1.prems" by (simp add: db_select_pending_eq pageSize_def)
  show ?case
  proof (cases "?data = []")
    case True
    then have "drop frm ?rows = []" by (simp add: pageSize_def)
    with True sel show ?thesis
      by (subst getPendingBooks_loop.simps) simp
  next
    case False
    show ?thesis
    proof (cases "length ?data < pageSize")
      case True
      then have "?data = drop frm ?rows" by simp
      with False True sel show ?thesis
        by (subst getPendingBooks_loop.simps) simp
    next
      case full: False
      have "fst (getPendingBooks_loop seller (frm + pageSize) (allPending @ ?data) ?w') =
          (allPending @ ?data) @ drop (frm + pageSize) (pending_rows (seller_eq seller) (ebay_books ?w'))"
        using "1.IH" [OF sel [symmetric] refl False full] "1.prems" by simp
      also have "\<dots> = allPending @ drop frm ?rows"
        by (simp add: add.commute [of frm pageSize] drop_drop [symmetric] del: drop_drop)
      finally show ?thesis
        using False full sel by (subst getPendingBooks_loop.simps) simp
    qed
  qed
qed

lemma getPendingBooks_loop_effect:
  "getPendingBooks_loop seller frm acc w = (res, w') \<Longrightarrow>
   ebay_books w' = ebay_books w \<and> fetcher_checkpoints w' = fetcher_checkpoints w
   \<and> clock w' = clock w
   \<and> (\<exists>k. faults w' = drop k (faults w))
   \<and> (\<exists>new. events w' = events w @ new \<and> list_all paging_event new)
   \<and> (\<exists>k. res = acc @ take k (drop frm (pending_rows (seller_eq seller) (ebay_books w))))"
proof (induction seller frm acc w arbitrary: res w' rule: getPendingBooks_loop.induct)
  case (1 seller frm allPending w)
  define rows where "rows = pending_rows (seller_eq seller) (ebay_books w)"
  define data where "data = take pageSize (drop frm rows)"
  define w1 where "w1 = w\<lparr>faults := tl (faults w)\<rparr>"
  have tl: "faults w1 = drop 1 (faults w)" by (simp add: w1_def drop_Suc)
  have w1: "ebay_books w1 = ebay_books w" "fetcher_checkpoints w1 = fetcher_checkpoints w"
    "clock w1 = clock w" "events w1 = events w"
    by (simp_all add: w1_def)
  show ?case
  proof (cases "next_fault w")
    case (Some e)
    define line where "line = ConsoleError (''Error fetching pending books: '' @ message e)"
    from Some "1.prems"
    have res: "res = allPending"
      and w': "w' = emit line (emit (DbSelectRange frm (frm + pageSize - 1) 0) w1)"
      by (simp_all add: getPendingBooks_loop.simps [of seller frm allPending w]
            db_select_pending_eq w1_def line_def)
    have "events w' = events w @ [DbSelectRange frm (frm + pageSize - 1) 0, line]"
      by (simp add: w' w1)
    moreover have "list_all paging_event [DbSelectRange frm (frm + pageSize - 1) 0, line]"
      by (simp add: paging_event_def pageSize_def line_def)
    ultimately have "\<exists>new. events w' = events w @ new \<and> list_all paging_event new"
      by blast
    moreover have "res = allPending @ take 0 (drop frm rows)" by (simp add: res)
    then have "\<exists>k. res = allPending @ take k (drop frm rows)" ..
    moreover have "faults w' = drop 1 (faults w)" by (simp add: w' tl)
    then have "\<exists>k. faults w' = drop k (faults w)" ..
    ultimately show ?thesis
      unfolding rows_def by (simp add: w' w1)
  next
    case None
    define w2 where "w2 = emit (DbSelectRange frm (frm + pageSize - 1) (length data)) w1"
    have sel: "db_select_pending (seller_eq seller) frm (frm + pageSize - 1) w = (Inr data, w2)"
      using None by (simp add: db_select_pending_eq pageSize_def data_def rows_def w2_def w1_def)
    have w2: "ebay_books w2 = ebay_books w" "fetcher_checkpoints w2 = fetcher_checkpoints w"
      "clock w2 = clock w" "faults w2 = drop 1 (faults w)"
      "events w2 = events w @ [DbSelectRange frm (frm + pageSize - 1) (length data)]"
      by (simp_all add: w2_def w1 tl)
    have pe: "paging_event (DbSelectRange frm (frm + pageSize - 1) (length data))"
      by (simp add: paging_event_def pageSize_def data_def)
    have unfold: "getPendingBooks_loop seller frm allPending w =
        (if data = [] then (allPending, w2)
         else if length data < pageSize then (allPending @ data, w2)
         else getPendingBooks_loop seller (frm + pageSize) (allPending @ data) w2)"
      by (subst getPendingBooks_loop.simps, unfold sel) simp
    show ?thesis
    proof (cases "data = [] \<or> length data < pageSize")
      case True
      with unfold "1.prems" have w': "w' = w2"
        and res: "res = allPending \<or> res = allPending @ data"
        by (auto split: if_splits)
      from res have "\<exists>k. res = allPending @ take k (drop frm rows)"
      proof
        assume "res = allPending"
        then have "res = allPending @ take 0 (drop frm rows)" by simp
        then show ?thesis ..
      next
        assume "res = allPending @ data"
        then show ?thesis unfolding data_def ..
      qed
      moreover have "\<exists>new. events w' = events w @ new \<and> list_all paging_event new"
        using w2(5) pe w'
        by (intro exI [of _ "[DbSelectRange frm (frm + pageSize - 1) (length data)]"]) simp
      moreover have "\<exists>k. faults w' = drop k (faults w)"
        using w2(4) w' by blast
      ultimately show ?thesis
        unfolding rows_def by (simp add: w' w2)
    next
      case False
      then have ne: "data \<noteq> []" and full: "\<not> length data < pageSize" by simp_all
      from unfold "1.prems" ne full
      have rec: "getPendingBooks_loop seller (frm + pageSize) (allPending @ data) w2 = (res, w')"
        by simp
      from "1.IH" [OF sel [symmetric] refl ne full rec]
      obtain k j new where ih: "ebay_books w' = ebay_books w2"
        "fetcher_checkpoints w' = fetcher_checkpoints w2" "clock w' = clock w2"
        "faults w' = drop k (faults w2)"
        "events w' = events w2 @ new" "list_all paging_event new"
        "res = (allPending @ data) @ take j (drop (frm + pageSize) (pending_rows (seller_eq seller) (ebay_books w2)))"
        by blast
      have "res = allPending @ take (pageSize + j) (drop frm rows)"
        unfolding ih(7) w2(1) rows_def [symmetric] data_def
        by (simp add: take_add add.commute [of frm pageSize] drop_drop [symmetric] del: drop_drop)
      then have "\<exists>k. res = allPending @ take k (drop frm rows)" ..
      moreover have "faults w' = drop (Suc k) (faults w)"
        using ih(4) w2(4) by simp
      then have "\<exists>k. faults w' = drop k (faults w)" ..
      moreover have "\<exists>new'. events w' = events w @ new' \<and> list_all paging_event new'"
        using ih(5,6) pe w2(5)
        by (intro exI [of _ "DbSelectRange frm (frm + pageSize - 1) (length data) # new"]) simp
      ultimately show ?thesis
        unfolding rows_def using ih(1-3) w2(1-3) by simp
    qed
  qed
qed

lemma getPendingBooks_effect:
  assumes "getPendingBooks seller w = (pending, w')"
  shows "ebay_books w' = ebay_books w" "fetcher_checkpoints w' = fetcher_checkpoints w"
    "clock w' = clock w" "\<exists>k. faults w' = drop k (faults w)"
    "\<exists>new. events w' = events w @ new \<and> list_all paging_event new"
    "\<exists>k. pending = take k (pending_rows (seller_eq seller) (ebay_books w))"
    "store_healthy w \<Longrightarrow> pending = pending_rows (seller_eq seller) (ebay_books w)"
proof -
  from assms have loop: "getPendingBooks_loop seller 0 [] w = (pending, w')"
    by (simp add: getPendingBooks_def)
  from getPendingBooks_loop_effect [OF loop]
  show "ebay_books w' = ebay_books w" "fetcher_checkpoints w' = fetcher_checkpoints w"
    "clock w' = clock w" "\<exists>k. faults w' = drop k (faults w)"
    "\<exists>new. events w' = events w @ new \<and> list_all paging_event new"
    "\<exists>k. pending = take k (pending_rows (seller_eq seller) (ebay_books w))"
    by simp_all
  show "pending = pending_rows (seller_eq seller) (ebay_books w)" if "store_healthy w"
    using getPendingBooks_loop_healthy [OF that, of seller 0 "[]"] loop by simp
qed




section \<open>Inserting a page\<close>

lemma insertBooks_loop_counts:
  "insertBooks_loop books c w = (c', w') \<Longrightarrow>
   \<exists>new. events w' = events w @ new
     \<and> map fst (insert_attempts new) = map (\<lambda>b. col b ''isbn'') books
     \<and> saved c' = saved c + length (filter (\<lambda>(k, r). r = None) (insert_attempts new))
     \<and> duplicates c' = duplicates c
          + length (filter (\<lambda>(k, r). case r of Some e \<Rightarrow> code e = ''23505'' | None \<Rightarrow> False)
              (insert_attempts new))
     \<and> errors c' = errors c
          + length (filter (\<lambda>(k, r). case r of Some e \<Rightarrow> code e \<noteq> ''23505'' | None \<Rightarrow> False)
              (insert_attempts new))"
proof (induction books arbitrary: c w)
  case Nil
  then show ?case by simp
next
  case (Cons book books)
  obtain r w1 where ins: "db_insert book w = (r, w1)" by (cases "db_insert book w")
  with db_insert_events [of book w]
  have ev1: "events w1 = events w @ [DbInsert (col book ''isbn'') r]" by simp
  show ?case
  proof (cases r)
    case None
    with Cons.prems ins have "insertBooks_loop books (c\<lparr>saved := saved c + 1\<rparr>) w1 = (c', w')"
      by simp
    from Cons.IH [OF this] obtain new where "events w' = events w1 @ new"
      "map fst (insert_attempts new) = map (\<lambda>b. col b ''isbn'') books"
      "saved c' = saved c + 1 + length (filter (\<lambda>(k, r). r = None) (insert_attempts new))"
      "duplicates c' = duplicates c
          + length (filter (\<lambda>(k, r). case r of Some e \<Rightarrow> code e = ''23505'' | None \<Rightarrow> False)
              (insert_attempts new))"
      "errors c' = errors c
          + length (filter (\<lambda>(k, r). case r of Some e \<Rightarrow> code e \<noteq> ''23505'' | None \<Rightarrow> False)
              (insert_attempts new))"
      by auto
    then show ?thesis
      using None ev1
      by (intro exI [of _ "DbInsert (col book ''isbn'') r # new"]) simp
  next
    case (Some e)
    show ?thesis
    proof (cases "code e = ''23505''")
      case True
      with Cons.prems ins Some
      have "insertBooks_loop books (c\<lparr>duplicates := duplicates c + 1\<rparr>) w1 = (c', w')"
        by simp
      from Cons.IH [OF this] obtain new where "events w' = events w1 @ new"
        "map fst (insert_attempts new) = map (\<lambda>b. col b ''isbn'') books"
        "saved c' = saved c + length (filter (\<lambda>(k, r). r = None) (insert_attempts new))"
        "duplicates c' = duplicates c + 1
          + length (filter (\<lambda>(k, r). case r of Some e \<Rightarrow> code e = ''23505'' | None \<Rightarrow> False)
              (insert_attempts new))"
        "errors c' = errors c
          + length (filter (\<lambda>(k, r). case r of Some e \<Rightarrow> code e \<noteq> ''23505'' | None \<Rightarrow> False)
              (insert_attempts new))"
        by auto
      then show ?thesis
        using Some True ev1
        by (intro exI [of _ "DbInsert (col book ''isbn'') r # new"]) simp
    next
      case False
      let ?line = "ConsoleError (''  Insert error for '' @ isbn_of book @ '': '' @ message e)"
      from Cons.prems ins Some False
      have "insertBooks_loop books (c\<lparr>errors := errors c + 1\<rparr>) (emit ?line w1) = (c', w')"
        by simp
      from Cons.IH [OF this] obtain new where "events w' = events w1 @ ?line # new"
        "map fst (insert_attempts new) = map (\<lambda>b. col b ''isbn'') books"
        "saved c' = saved c + length (filter (\<lambda>(k, r). r = None) (insert_attempts new))"
        "duplicates c' = duplicates c
          + length (filter (\<lambda>(k, r). case r of Some e \<Rightarrow> code e = ''23505'' | None \<Rightarrow> False)
              (insert_attempts new))"
        "errors c' = errors c + 1
          + length (filter (\<lambda>(k, r). case r of Some e \<Rightarrow> code e \<noteq> ''23505'' | None \<Rightarrow> False)
              (insert_attempts new))"
        by auto
      then show ?thesis
        using Some False ev1
        by (intro exI [of _ "DbInsert (col book ''isbn'') r # ?line # new"]) simp
    qed
  qed
qed


section \<open>One pending book\<close>

lemma evaluate_one_data:
  assumes "getProductByIsbn api (isbn_of book) = Resolves (Some raw)"
  shows "evaluate_one api n book c w =
    (let result = evaluateBook api raw (buyPriceDollars book);
         w2 = emit (GetProductByIsbn (isbn_of book)) (emit WaitForKeepaTokens w);
         w3 = snd (updateBookEvaluation (isbn_of book) (evaluation_fields result) w2);
         c1 = (if decision result = BUY then c\<lparr>buy := buy c + 1\<rparr>
               else if decision result = REVIEW then c\<lparr>review := review c + 1\<rparr>
               else c\<lparr>reject := reject c + 1\<rparr>);
         c2 = c1\<lparr>evaluated := evaluated c1 + 1\<rparr>
     in (Inr c2,
         sleep (KEEPA_DELAY_MS api)
           (emit (ConsoleLog (verdict_line (evaluated c2) n (isbn_of book) result)) w3)))"
  using assms by (simp add: evaluate_one_def Let_def split: prod.splits)

lemma evaluate_one_no_data:
  assumes "getProductByIsbn api (isbn_of book) = Resolves None"
  shows "evaluate_one api n book c w =
    (let w2 = emit (GetProductByIsbn (isbn_of book)) (emit WaitForKeepaTokens w);
         w3 = snd (updateBookEvaluation (isbn_of book) [(''decision'', JStr ''REJECT'')] w2);
         c2 = c\<lparr>noData := noData c + 1, evaluated := evaluated c + 1\<rparr>
     in (Inr c2,
         sleep (KEEPA_DELAY_MS api)
           (emit (ConsoleLog (no_data_line (evaluated c2) n (isbn_of book))) w3)))"
  using assms by (simp add: evaluate_one_def Let_def split: prod.splits)

lemma evaluate_one_rejects:
  assumes "getProductByIsbn api (isbn_of book) = Rejects err"
  shows "evaluate_one api n book c w =
    (Inl err, emit (GetProductByIsbn (isbn_of book)) (emit WaitForKeepaTokens w))"
  using assms by (simp add: evaluate_one_def Let_def)

lemma evaluate_one_counters:
  assumes "evaluate_one api n book c w = (Inr c', w')"
  shows "evaluated c' = evaluated c + 1
    \<and> noData c' = noData c + (if getProductByIsbn api (isbn_of book) = Resolves None then 1 else 0)
    \<and> buy c' = buy c + (if verdict_of api book = Some BUY then 1 else 0)
    \<and> review c' = review c + (if verdict_of api book = Some REVIEW then 1 else 0)
    \<and> reject c' = reject c + (if verdict_of api book = Some REJECT then 1 else 0)"
proof (cases "getProductByIsbn api (isbn_of book)")
  case (Rejects err)
  with assms show ?thesis by (simp add: evaluate_one_rejects)
next
  case (Resolves found)
  show ?thesis
  proof (cases found)
    case None
    with Resolves assms show ?thesis
      by (auto simp: evaluate_one_no_data Let_def verdict_of_def)
  next
    case (Some raw)
    with Resolves assms show ?thesis
      by (cases "decision (evaluateBook api raw (buyPriceDollars book))")
         (auto simp: evaluate_one_data Let_def verdict_of_def)
  qed
qed

lemma evaluate_one_balance:
  assumes "evaluate_one api n book c w = (Inr c', w')"
    and "evaluated c = buy c + review c + reject c + noData c"
  shows "evaluated c' = buy c' + review c' + reject c' + noData c'"
proof (cases "getProductByIsbn api (isbn_of book)")
  case (Rejects err)
  with assms show ?thesis by (simp add: evaluate_one_rejects)
next
  case (Resolves found)
  show ?thesis
  proof (cases found)
    case None
    with Resolves assms show ?thesis
      by (auto simp: evaluate_one_no_data Let_def)
  next
    case (Some raw)
    with Resolves assms show ?thesis
      by (auto simp: evaluate_one_data Let_def)
  qed
qed

lemma evaluate_one_faults:
  "faults (snd (evaluate_one api n book c w)) =
     (case getProductByIsbn api (isbn_of book) of Rejects err \<Rightarrow> faults w | Resolves found \<Rightarrow> tl (faults w))"
proof (cases "getProductByIsbn api (isbn_of book)")
  case (Rejects err)
  then show ?thesis by (simp add: evaluate_one_rejects)
next
  case (Resolves found)
  then show ?thesis
    by (cases found) (simp_all add: evaluate_one_no_data evaluate_one_data Let_def updateBookEvaluation_proj)
qed

lemma evaluate_one_healthy:
  "store_healthy w \<Longrightarrow> store_healthy (snd (evaluate_one api n book c w))"
  by (rule healthy_faults [of w]) (auto simp: evaluate_one_faults split: reply.splits)

lemma rejections_append: "rejections (es @ fs) = rejections es @ rejections fs"
  by (induction es rule: rejections.induct) simp_all

lemma rejections_update_log [simp]: "rejections (update_log isbn f) = []"
  by (cases f) (simp_all add: update_log_def)

lemma evaluate_one_rejections:
  assumes "evaluate_one api n book c w = (Inr c', w')"
  shows "\<exists>new. events w' = events w @ new
     \<and> rejections new =
         (if getProductByIsbn api (isbn_of book) = Resolves None \<or> verdict_of api book = Some REJECT
          then [next_fault w] else [])"
proof (cases "getProductByIsbn api (isbn_of book)")
  case (Rejects err)
  with assms show ?thesis by (simp add: evaluate_one_rejects)
next
  case (Resolves found)
  show ?thesis
  proof (cases found)
    case None
    let ?new = "[WaitForKeepaTokens, GetProductByIsbn (isbn_of book),
       DbUpdate (isbn_of book) [(''evaluated_at'', JTime (clock w)), (''decision'', JStr ''REJECT'')]
         (next_fault w)] @ update_log (isbn_of book) (next_fault w)
       @ [ConsoleLog (no_data_line (evaluated c + 1) n (isbn_of book)), Sleep (KEEPA_DELAY_MS api)]"
    from assms Resolves None have "events w' = events w @ ?new"
      by (auto simp: evaluate_one_no_data Let_def updateBookEvaluation_proj)
    moreover have "rejections ?new = [next_fault w]"
      by (simp add: rejections_append)
    ultimately show ?thesis
      using Resolves None by (intro exI [of _ ?new]) simp
  next
    case (Some raw)
    let ?result = "evaluateBook api raw (buyPriceDollars book)"
    let ?patch = "strip_undefined (evaluation_fields ?result) [(''evaluated_at'', JTime (clock w))]"
    let ?new = "[WaitForKeepaTokens, GetProductByIsbn (isbn_of book),
       DbUpdate (isbn_of book) ?patch (next_fault w)] @ update_log (isbn_of book) (next_fault w)
       @ [ConsoleLog (verdict_line (evaluated c + 1) n (isbn_of book) ?result),
          Sleep (KEEPA_DELAY_MS api)]"
    from assms Resolves Some have "events w' = events w @ ?new"
      by (auto simp: evaluate_one_data Let_def updateBookEvaluation_proj)
    moreover have "rejections ?new = (if decision ?result = REJECT then [next_fault w] else [])"
      by (simp add: rejections_append decision_lookup)
    ultimately show ?thesis
      using Resolves Some by (intro exI [of _ ?new]) (simp add: verdict_of_def)
  qed
qed



lemma update_log_quiet: "list_all (\<lambda>e. \<not> is_lookup e) (update_log isbn f)"
  by (cases f) (simp_all add: update_log_def is_lookup_def)

lemma evaluate_one_trace:
  "\<exists>rest. events (snd (evaluate_one api n book c w)) =
      events w @ [WaitForKeepaTokens, GetProductByIsbn (isbn_of book)] @ rest
    \<and> list_all (\<lambda>e. \<not> is_lookup e) rest"
proof (cases "getProductByIsbn api (isbn_of book)")
  case (Rejects err)
  then show ?thesis by (simp add: evaluate_one_rejects)
next
  case (Resolves found)
  show ?thesis
  proof (cases found)
    case None
    with Resolves show ?thesis
      using update_log_quiet [of "isbn_of book" "next_fault w"]
      by (simp add: evaluate_one_no_data Let_def updateBookEvaluation_proj is_lookup_def)
  next
    case (Some raw)
    with Resolves show ?thesis
      using update_log_quiet [of "isbn_of book" "next_fault w"]
      by (simp add: evaluate_one_data Let_def updateBookEvaluation_proj is_lookup_def)
  qed
qed


section \<open>The loop over the pending books\<close>

lemma evaluate_loop_counters:
  "evaluate_loop api n books c w = (Inr c', w') \<Longrightarrow>
   evaluated c' = evaluated c + length books
   \<and> noData c' = noData c + length (filter (\<lambda>b. getProductByIsbn api (isbn_of b) = Resolves None) books)
   \<and> buy c' = buy c + length (filter (\<lambda>b. verdict_of api b = Some BUY) books)
   \<and> review c' = review c + length (filter (\<lambda>b. verdict_of api b = Some REVIEW) books)
   \<and> reject c' = reject c + length (filter (\<lambda>b. verdict_of api b = Some REJECT) books)"
proof (induction books arbitrary: c w)
  case Nil
  then show ?case by simp
next
  case (Cons book books)
  obtain res w1 where one: "evaluate_one api n book c w = (res, w1)"
    by (cases "evaluate_one api n book c w")
  with Cons.prems obtain c1 where res: "res = Inr c1"
    and rest: "evaluate_loop api n books c1 w1 = (Inr c', w')"
    by (cases res) auto
  from evaluate_one_counters [OF one [unfolded res]] Cons.IH [OF rest]
  show ?case by simp
qed

lemma evaluate_loop_balance:
  "evaluate_loop api n books c w = (Inr c', w') \<Longrightarrow>
   evaluated c = buy c + review c + reject c + noData c \<Longrightarrow>
   evaluated c' = buy c' + review c' + reject c' + noData c'"
proof (induction books arbitrary: c w)
  case Nil
  then show ?case by simp
next
  case (Cons book books)
  obtain res w1 where one: "evaluate_one api n book c w = (res, w1)"
    by (cases "evaluate_one api n book c w")
  with Cons.prems obtain c1 where res: "res = Inr c1"
    and rest: "evaluate_loop api n books c1 w1 = (Inr c', w')"
    by (cases res) auto
  from evaluate_one_balance [OF one [unfolded res] Cons.prems(2)]
  show ?case by (rule Cons.IH [OF rest])
qed

lemma evaluate_loop_rejections:
  "evaluate_loop api n books c w = (Inr c', w') \<Longrightarrow>
   \<exists>new. events w' = events w @ new
     \<and> length (rejections new) =
         length (filter (\<lambda>b. getProductByIsbn api (isbn_of b) = Resolves None) books)
         + length (filter (\<lambda>b. verdict_of api b = Some REJECT) books)
     \<and> (store_healthy w \<longrightarrow> list_all (\<lambda>r. r = None) (rejections new))"
proof (induction books arbitrary: c w)
  case Nil
  then show ?case by simp
next
  case (Cons book books)
  obtain res w1 where one: "evaluate_one api n book c w = (res, w1)"
    by (cases "evaluate_one api n book c w")
  with Cons.prems obtain c1 where res: "res = Inr c1"
    and rest: "evaluate_loop api n books c1 w1 = (Inr c', w')"
    by (cases res) auto
  from evaluate_one_rejections [OF one [unfolded res]] obtain new1
    where n1: "events w1 = events w @ new1"
      "rejections new1 =
         (if getProductByIsbn api (isbn_of book) = Resolves None \<or> verdict_of api book = Some REJECT
          then [next_fault w] else [])"
    by blast
  from Cons.IH [OF rest] obtain new2
    where n2: "events w' = events w1 @ new2"
      "length (rejections new2) =
         length (filter (\<lambda>b. getProductByIsbn api (isbn_of b) = Resolves None) books)
         + length (filter (\<lambda>b. verdict_of api b = Some REJECT) books)"
      "store_healthy w1 \<longrightarrow> list_all (\<lambda>r. r = None) (rejections new2)"
    by blast
  have h1: "store_healthy w \<Longrightarrow> store_healthy w1"
    using evaluate_one_healthy [of w api n book c] one by simp
  have excl: "getProductByIsbn api (isbn_of book) = Resolves None \<Longrightarrow> verdict_of api book \<noteq> Some REJECT"
    by (simp add: verdict_of_def)
  show ?case
    using n1 n2 h1 excl
    by (intro exI [of _ "new1 @ new2"]) (auto simp: rejections_append)
qed

lemma guarded_quiet: "list_all (\<lambda>e. \<not> is_lookup e) es \<Longrightarrow> lookups_guarded es"
  by (auto simp: lookups_guarded_def list_all_iff is_lookup_def)

lemma guarded_pair: "lookups_guarded [WaitForKeepaTokens, GetProductByIsbn i]"
  unfolding lookups_guarded_def
proof (intro allI impI)
  fix before isbn after
  assume "[WaitForKeepaTokens, GetProductByIsbn i] = before @ GetProductByIsbn isbn # after"
  then have "before = [WaitForKeepaTokens]"
    by (cases before; cases "tl before") auto
  then show "\<exists>earlier. before = earlier @ [WaitForKeepaTokens]" by simp
qed

lemma guarded_append:
  assumes "lookups_guarded a" and "lookups_guarded b"
  shows "lookups_guarded (a @ b)"
  unfolding lookups_guarded_def
proof (intro allI impI)
  fix before isbn after
  assume "a @ b = before @ GetProductByIsbn isbn # after"
  then obtain us where "a = before @ us \<and> us @ b = GetProductByIsbn isbn # after
      \<or> a @ us = before \<and> b = us @ GetProductByIsbn isbn # after"
    by (auto simp: append_eq_append_conv2)
  then show "\<exists>earlier. before = earlier @ [WaitForKeepaTokens]"
  proof
    assume l: "a = before @ us \<and> us @ b = GetProductByIsbn isbn # after"
    show ?thesis
    proof (cases us)
      case Nil
      with l have "b = [] @ GetProductByIsbn isbn # after" by simp
      with assms(2) have "\<exists>earlier. [] = earlier @ [WaitForKeepaTokens]"
        unfolding lookups_guarded_def by blast
      then show ?thesis by simp
    next
      case (Cons u us')
      with l have "a = before @ GetProductByIsbn isbn # us'" by simp
      with assms(1) show ?thesis
        unfolding lookups_guarded_def by blast
    qed
  next
    assume r: "a @ us = before \<and> b = us @ GetProductByIsbn isbn # after"
    with assms(2) obtain earlier where "us = earlier @ [WaitForKeepaTokens]"
      unfolding lookups_guarded_def by blast
    with r have "before = (a @ earlier) @ [WaitForKeepaTokens]" by simp
    then show ?thesis ..
  qed
qed

lemma evaluate_one_guarded:
  "\<exists>new. events (snd (evaluate_one api n book c w)) = events w @ new \<and> lookups_guarded new"
proof -
  from evaluate_one_trace [of api n book c w] obtain rest
    where ev: "events (snd (evaluate_one api n book c w)) =
        events w @ [WaitForKeepaTokens, GetProductByIsbn (isbn_of book)] @ rest"
      and q: "list_all (\<lambda>e. \<not> is_lookup e) rest"
    by blast
  have "lookups_guarded ([WaitForKeepaTokens, GetProductByIsbn (isbn_of book)] @ rest)"
    by (intro guarded_append guarded_pair guarded_quiet q)
  with ev show ?thesis by blast
qed

lemma evaluate_loop_guarded:
  "\<exists>new. events (snd (evaluate_loop api n books c w)) = events w @ new \<and> lookups_guarded new"
proof (induction books arbitrary: c w)
  case Nil
  have "lookups_guarded []" by (rule guarded_quiet) simp
  then show ?case by simp
next
  case (Cons book books)
  obtain res w1 where one: "evaluate_one api n book c w = (res, w1)"
    by (cases "evaluate_one api n book c w")
  from evaluate_one_guarded [of api n book c w] one
  obtain new1 where n1: "events w1 = events w @ new1" "lookups_guarded new1"
    by auto
  show ?case
  proof (cases res)
    case (Inl err)
    with one n1 show ?thesis by auto
  next
    case (Inr c1)
    from Cons.IH [of c1 w1] obtain new2
      where n2: "events (snd (evaluate_loop api n books c1 w1)) = events w1 @ new2"
        "lookups_guarded new2"
      by blast
    have "lookups_guarded (new1 @ new2)"
      using n1(2) n2(2) by (rule guarded_append)
    with one Inr n1(1) n2(1) show ?thesis
      by (intro exI [of _ "new1 @ new2"]) simp
  qed
qed

lemma paging_quiet: "list_all paging_event es \<Longrightarrow> list_all (\<lambda>e. \<not> is_lookup e) es"
  by (induction es) (auto simp: paging_event_def is_lookup_def split: event.splits)






section \<open>Checkpoints and one search\<close>

lemma db_upsert_checkpoint_eq:
  "db_upsert_checkpoint seller categoryId off now w =
     (next_fault w,
      emit (DbUpsertCheckpoint seller categoryId off (next_fault w))
        (w\<lparr>faults := tl (faults w),
           fetcher_checkpoints := (if next_fault w = None
              then (fetcher_checkpoints w)((seller, categoryId) \<mapsto> \<lparr>last_offset = off, updated_at = now\<rparr>)
              else fetcher_checkpoints w)\<rparr>))"
  by (cases "next_fault w") (simp_all add: db_upsert_checkpoint_def take_fault_eq emit_def)

lemma saveCheckpoint_proj:
  "events (saveCheckpoint seller q off w) =
     events w @ DbUpsertCheckpoint seller q off (next_fault w) # save_log (next_fault w)"
  "fetcher_checkpoints (saveCheckpoint seller q off w) =
     (if next_fault w = None
      then (fetcher_checkpoints w)((seller, q) \<mapsto> \<lparr>last_offset = off, updated_at = clock w\<rparr>)
      else fetcher_checkpoints w)"
  "faults (saveCheckpoint seller q off w) = tl (faults w)"
  "ebay_books (saveCheckpoint seller q off w) = ebay_books w"
  "clock (saveCheckpoint seller q off w) = clock w"
  by (cases "next_fault w"; simp add: saveCheckpoint_def db_upsert_checkpoint_eq save_log_def)+

lemma resetCheckpoint_proj:
  "events (resetCheckpoint seller q w) =
     events w @ DbUpsertCheckpoint seller q 0 (next_fault w) # reset_log (next_fault w)"
  "fetcher_checkpoints (resetCheckpoint seller q w) =
     (if next_fault w = None
      then (fetcher_checkpoints w)((seller, q) \<mapsto> \<lparr>last_offset = 0, updated_at = clock w\<rparr>)
      else fetcher_checkpoints w)"
  "faults (resetCheckpoint seller q w) = tl (faults w)"
  "ebay_books (resetCheckpoint seller q w) = ebay_books w"
  "clock (resetCheckpoint seller q w) = clock w"
  by (cases "next_fault w"; simp add: resetCheckpoint_def db_upsert_checkpoint_eq reset_log_def)+

lemma getCheckpoint_eq:
  "getCheckpoint seller categoryId w =
     (if next_fault w = None
      then (case fetcher_checkpoints w (seller, categoryId) of None \<Rightarrow> 0 | Some c \<Rightarrow> last_offset c)
      else 0,
      w\<lparr>faults := tl (faults w)\<rparr>)"
  by (cases "next_fault w"; cases "fetcher_checkpoints w (seller, categoryId)")
     (simp_all add: getCheckpoint_def db_single_checkpoint_def take_fault_eq)

lemma upserts_append: "upserts (es @ fs) = upserts es @ upserts fs"
  by (induction es rule: upserts.induct) simp_all

lemma upserts_logs [simp]: "upserts (save_log f) = []" "upserts (reset_log f) = []"
  by (cases f; simp add: save_log_def reset_log_def)+

lemma last_stored_append:
  "last_stored key (us @ vs) =
     (case last_stored key vs of Some n \<Rightarrow> Some n | None \<Rightarrow> last_stored key us)"
  by (induction us) (auto split: option.splits)


lemma healthy_drop: "store_healthy w \<Longrightarrow> faults w' = drop k (faults w) \<Longrightarrow> store_healthy w'"
  unfolding store_healthy_def list_all_iff by (auto dest: in_set_dropD)

lemma insertBooks_loop_effect:
  "insertBooks_loop books c w = (c', w') \<Longrightarrow>
   fetcher_checkpoints w' = fetcher_checkpoints w
   \<and> faults w' = drop (length books) (faults w)
   \<and> (\<exists>new. events w' = events w @ new \<and> upserts new = [])"
proof (induction books arbitrary: c w)
  case Nil
  then show ?case by simp
next
  case (Cons book books)
  obtain r w1 where ins: "db_insert book w = (r, w1)" by (cases "db_insert book w")
  then have w1: "fetcher_checkpoints w1 = fetcher_checkpoints w" "faults w1 = tl (faults w)"
    "events w1 = events w @ [DbInsert (col book ''isbn'') r]"
    by (cases "next_fault w"; auto simp: db_insert_def take_fault_eq split: if_splits)+
  define w2 where "w2 = (case r of
       Some e \<Rightarrow> if code e = ''23505'' then w1
         else emit (ConsoleError (''  Insert error for '' @ isbn_of book @ '': '' @ message e)) w1
     | None \<Rightarrow> w1)"
  have w2: "fetcher_checkpoints w2 = fetcher_checkpoints w" "faults w2 = tl (faults w)"
    "\<exists>new. events w2 = events w @ new \<and> upserts new = []"
    using w1 by (auto simp: w2_def split: option.splits)
  from Cons.prems ins obtain c2 where "insertBooks_loop books c2 w2 = (c', w')"
    by (auto simp: w2_def split: option.splits if_splits)
  from Cons.IH [OF this] obtain new2 where ih: "fetcher_checkpoints w' = fetcher_checkpoints w2"
    "faults w' = drop (length books) (faults w2)" "events w' = events w2 @ new2" "upserts new2 = []"
    by blast
  from w2(3) obtain new1 where n1: "events w2 = events w @ new1" "upserts new1 = []" by blast
  have "events w' = events w @ (new1 @ new2)" "upserts (new1 @ new2) = []"
    using ih(3,4) n1 by (simp_all add: upserts_append)
  then have "\<exists>new. events w' = events w @ new \<and> upserts new = []" by blast
  then show ?case
    using ih(1,2) w2(1,2) by (simp add: drop_Suc)
qed

lemma run_callbacks_effect:
  "run_callbacks seller q cbs tot w = (tot', w') \<Longrightarrow>
   \<exists>new. events w' = events w @ new
     \<and> map (\<lambda>(k, off, r). (k, off)) (upserts new) = map (\<lambda>off. ((seller, q), off)) (saved_offsets cbs)
     \<and> map_option last_offset (fetcher_checkpoints w' key) =
         (case last_stored key (upserts new) of
            Some off \<Rightarrow> Some off
          | None \<Rightarrow> map_option last_offset (fetcher_checkpoints w key))
     \<and> (store_healthy w \<longrightarrow> store_healthy w' \<and> list_all (\<lambda>(k, off, r). r = None) (upserts new))"
proof (induction seller q cbs tot w rule: run_callbacks.induct)
  case (1 seller q tot w)
  then show ?case by simp
next
  case (2 seller q books cbs newTotal skippedTotal w)
  obtain insertResult w1 where ins: "insertBooks books w = (insertResult, w1)"
    by (cases "insertBooks books w")
  from insertBooks_loop_effect [OF ins [unfolded insertBooks_def]] obtain new1
    where w1: "fetcher_checkpoints w1 = fetcher_checkpoints w"
      "faults w1 = drop (length books) (faults w)"
      "events w1 = events w @ new1" "upserts new1 = []"
    by blast
  from "2.prems" ins
  have "run_callbacks seller q cbs
      (newTotal + saved insertResult, skippedTotal + duplicates insertResult) w1 = (tot', w')"
    by simp
  from "2.IH" [OF ins [symmetric] refl this] obtain new2
    where ih: "events w' = events w1 @ new2"
      "map (\<lambda>(k, off, r). (k, off)) (upserts new2) = map (\<lambda>off. ((seller, q), off)) (saved_offsets cbs)"
      "map_option last_offset (fetcher_checkpoints w' key) =
         (case last_stored key (upserts new2) of
            Some off \<Rightarrow> Some off
          | None \<Rightarrow> map_option last_offset (fetcher_checkpoints w1 key))"
      "store_healthy w1 \<longrightarrow> store_healthy w' \<and> list_all (\<lambda>(k, off, r). r = None) (upserts new2)"
    by blast
  have h: "store_healthy w \<Longrightarrow> store_healthy w1"
    using w1(2) by (rule healthy_drop [rotated])
  have u: "upserts (new1 @ new2) = upserts new2"
    by (simp add: upserts_append w1(4))
  have "events w' = events w @ (new1 @ new2)"
    using ih(1) w1(3) by simp
  then show ?case
    using ih(2-4) h w1(1) u by (intro exI [of _ "new1 @ new2"]) (simp split: option.splits)
next
  case (3 seller q nextOffset cbs tot w)
  define w1 where "w1 = saveCheckpoint seller q nextOffset w"
  define f where "f = next_fault w"
  have ev1: "events w1 = events w @ DbUpsertCheckpoint seller q nextOffset f # save_log f"
    and cp1: "fetcher_checkpoints w1 =
       (if f = None
        then (fetcher_checkpoints w)((seller, q) \<mapsto> \<lparr>last_offset = nextOffset, updated_at = clock w\<rparr>)
        else fetcher_checkpoints w)"
    and f1: "faults w1 = tl (faults w)"
    by (simp_all add: w1_def f_def saveCheckpoint_proj)
  from "3.prems" have "run_callbacks seller q cbs tot w1 = (tot', w')"
    by (simp add: w1_def)
  from "3.IH" [OF this [unfolded w1_def]] obtain new2
    where ih: "events w' = events w1 @ new2"
      "map (\<lambda>(k, off, r). (k, off)) (upserts new2) = map (\<lambda>off. ((seller, q), off)) (saved_offsets cbs)"
      "map_option last_offset (fetcher_checkpoints w' key) =
         (case last_stored key (upserts new2) of
            Some off \<Rightarrow> Some off
          | None \<Rightarrow> map_option last_offset (fetcher_checkpoints w1 key))"
      "store_healthy w1 \<longrightarrow> store_healthy w' \<and> list_all (\<lambda>(k, off, r). r = None) (upserts new2)"
    unfolding w1_def [symmetric] by blast
  define new1 where "new1 = DbUpsertCheckpoint seller q nextOffset f # save_log f"
  have u1: "upserts new1 = [((seller, q), nextOffset, f)]"
    by (simp add: new1_def)
  have h: "store_healthy w \<Longrightarrow> store_healthy w1 \<and> f = None"
    using f1 healthy_faults [of w w1] by (simp add: f_def)
  have cp: "map_option last_offset (fetcher_checkpoints w1 key) =
      (case last_stored key (upserts new1) of
         Some off \<Rightarrow> Some off
       | None \<Rightarrow> map_option last_offset (fetcher_checkpoints w key))"
    by (simp add: u1 cp1)
  have "events w' = events w @ (new1 @ new2)"
    using ih(1) ev1 by (simp add: new1_def)
  moreover have "map (\<lambda>(k, off, r). (k, off)) (upserts (new1 @ new2)) =
      map (\<lambda>off. ((seller, q), off)) (saved_offsets (OnCheckpoint nextOffset # cbs))"
    using ih(2) by (simp add: upserts_append u1)
  moreover have "map_option last_offset (fetcher_checkpoints w' key) =
         (case last_stored key (upserts (new1 @ new2)) of
            Some off \<Rightarrow> Some off
          | None \<Rightarrow> map_option last_offset (fetcher_checkpoints w key))"
    unfolding upserts_append last_stored_append ih(3) cp
    by (simp split: option.splits)
  moreover have "store_healthy w \<longrightarrow>
      store_healthy w' \<and> list_all (\<lambda>(k, off, r). r = None) (upserts (new1 @ new2))"
    using ih(4) h by (simp add: upserts_append u1)
  ultimately show ?case by blast
qed



lemma run_search_eq:
  "run_search scrape seller srch (index, tot) w =
     (let start = fst (getCheckpoint seller (query srch) w);
          w2 = emit (ScrapeAllListings seller (query srch) start) (w\<lparr>faults := tl (faults w)\<rparr>);
          run = scrape seller (query srch) index start;
          w3 = snd (run_callbacks seller (query srch) (calls run) tot w2)
      in ((seen run, fst (run_callbacks seller (query srch) (calls run) tot w2)),
          case outcome run of
            Inl err \<Rightarrow> emit (ConsoleError (''  '' @ name srch @ '': ERROR - '' @ err)) w3
          | Inr result \<Rightarrow> if completed result then resetCheckpoint seller (query srch) w3 else w3))"
  by (simp add: run_search_def getCheckpoint_eq Let_def split: prod.splits sum.splits)


lemma run_search_starts:
  "\<exists>new. events (snd (run_search scrape seller srch (index, tot) w)) =
      events w @ ScrapeAllListings seller (query srch) (fst (getCheckpoint seller (query srch) w)) # new"
proof -
  let ?q = "query srch"
  let ?start = "fst (getCheckpoint seller ?q w)"
  let ?run = "scrape seller ?q index ?start"
  let ?w2 = "emit (ScrapeAllListings seller ?q ?start) (w\<lparr>faults := tl (faults w)\<rparr>)"
  obtain tot' w3 where rc: "run_callbacks seller ?q (calls ?run) tot ?w2 = (tot', w3)"
    by (cases "run_callbacks seller ?q (calls ?run) tot ?w2")
  from run_callbacks_effect [OF rc] obtain new1 where n1: "events w3 = events ?w2 @ new1"
    by blast
  have eq: "snd (run_search scrape seller srch (index, tot) w) = (case outcome ?run of
            Inl err \<Rightarrow> emit (ConsoleError (''  '' @ name srch @ '': ERROR - '' @ err)) w3
          | Inr result \<Rightarrow> if completed result then resetCheckpoint seller ?q w3 else w3)"
    unfolding run_search_eq Let_def rc snd_conv ..
  have "\<exists>tail. events (snd (run_search scrape seller srch (index, tot) w)) = events w3 @ tail"
    unfolding eq by (simp add: resetCheckpoint_proj split: sum.splits)
  then obtain tail where "events (snd (run_search scrape seller srch (index, tot) w)) = events w3 @ tail" ..
  with n1 show ?thesis by simp
qed


section \<open>The sample inputs, evaluated\<close>

lemma sample_cols:
  "col book_a ''isbn'' = JStr ''9780306406157''" "col book_a ''price'' = JNum (Num 1000)"
  "col book_a ''shipping'' = JNum (Num 300)" "col book_a ''seller'' = JStr ''alice''"
  "col book_a ''scraped_at'' = JTime 20" "col book_a ''decision'' = JNull"
  "col book_b ''isbn'' = JStr ''9781861972712''" "col book_b ''price'' = JNum (Num 450)"
  "col book_b ''shipping'' = JNum (Num 0)" "col book_b ''seller'' = JStr ''bob''"
  "col book_b ''scraped_at'' = JTime 10" "col book_b ''decision'' = JNull"
  by (simp_all add: col_def book_a_def book_b_def)

lemma sample_cols2:
  "col book_c ''isbn'' = JStr ''9780131103627''" "col book_d ''isbn'' = JStr ''9780262033848''"
  by (simp_all add: col_def book_c_def book_d_def)







lemma sample_insert:
  "fst (insertBooks [book_a, book_c, book_c, book_d] store1) = \<lparr>saved = 1, duplicates = 2, errors = 1\<rparr>"
  by (simp add: insertBooks_def db_insert_def take_fault_def store1_def store0_def sample_cols
        sample_cols2 unique_violation_def timeout_def)

lemma sample_trace:
  "events (snd (evaluatePendingBooks sample_api None store0)) =
    [DbSelectRange 0 999 2, ConsoleLog (CHR 0x0A # ''Evaluating 2 pending books...''),
     WaitForKeepaTokens, WaitForKeepaTokens, GetProductByIsbn ''9781861972712'',
     DbUpdate ''9781861972712'' [(''evaluated_at'', JTime 1000), (''decision'', JStr ''REJECT'')] None,
     ConsoleLog (''  [1/2] 9781861972712 '' @ em_dash @ '' no Keepa data '' @ right_arrow @ '' REJECT''),
     Sleep 1500, WaitForKeepaTokens, GetProductByIsbn ''9780306406157'',
     DbUpdate ''9780306406157''
       [(''evaluated_at'', JTime 2500), (''decision'', JStr ''BUY''), (''asin'', JStr ''B000TEST01''),
        (''sales_rank'', JNum (Num 2000000000)), (''fba_profit'', JNum (Num 135)),
        (''book_type'', JStr ''Paperback''), (''weight_oz'', JNum (Num (43 / 2)))] None,
     ConsoleLog (''  [2/2] 9780306406157 '' @ right_arrow @ '' BUY (ok)''),
     Sleep 1500]"
  by code_simp

lemma sample_counters:
  "fst (evaluatePendingBooks sample_api None store0) =
     Inr \<lparr>evaluated = 2, buy = 1, review = 0, reject = 0, noData = 1\<rparr>"
  by code_simp

lemma sample_decisions:
  "map (\<lambda>r. col r ''decision'') (ebay_books (snd (evaluatePendingBooks sample_api None store0)))
     = [JStr ''BUY'', JStr ''REJECT'']"
  by code_simp

lemma sample_checkpoints:
  "store_healthy store_resumed" "store_healthy store0"
  "next_fault store_resumed = None" "next_fault store_unreadable = Some timeout"
  "fetcher_checkpoints store0 (''alice'', ''textbook'') = None"
  "fetcher_checkpoints store_resumed (''alice'', ''textbook'') = Some \<lparr>last_offset = 400, updated_at = 5\<rparr>"
  "fetcher_checkpoints store_unreadable (''alice'', ''textbook'') = Some \<lparr>last_offset = 400, updated_at = 5\<rparr>"
  "query textbooks = ''textbook''"
  by (simp_all add: store_healthy_def store0_def store_resumed_def store_unreadable_def
        next_fault_def textbooks_def)






section \<open>Valuation lookups that yield no data\<close>





section \<open>The overflow guard\<close>

text \<open>
  C2. \<open>safeInt\<close> returns no value for \<^verbatim>\<open>undefined\<close>, \<^verbatim>\<open>null\<close>, \<^verbatim>\<open>NaN\<close> and the
  infinities, and for a finite \<open>q\<close> whose rounding is above 2,000,000,000 or below
  -2,000,000,000; for every other finite \<open>q\<close> it returns \<open>round q\<close>. Whatever it returns
  is an integer within the bound. In the object that \<^verbatim>\<open>updateBookEvaluation\<close> sends to
  the store, each of the three money fields and the two rank fields is what \<open>safeInt\<close>
  returned: the key is missing when \<open>safeInt\<close> returned nothing, so no value out of the
  bound is stored, clamped or not.
\<close>

theorem safeInt_guard:
  "safeInt Undefined = None \<and> safeInt Null = None
   \<and> safeInt (Val NaN) = None \<and> safeInt (Val PInf) = None \<and> safeInt (Val NInf) = None
   \<and> safeInt (Val (Num q)) =
        (if 2000000000 < round q \<or> round q < - 2000000000 then None
         else Some (Num (of_int (round q))))
   \<and> (safeInt v = Some r \<longrightarrow>
        (\<exists>n::int. r = Num (of_int n) \<and> - 2000000000 \<le> n \<and> n \<le> 2000000000))
   \<and> (let cleanEval = map_of (strip_undefined (evaluation_fields result) [(''evaluated_at'', JTime now)])
      in cleanEval ''amazon_price'' = map_option JNum (safeInt (to_cents (amazonPrice result)))
       \<and> cleanEval ''sales_rank'' = map_option JNum (safeInt (salesRank result))
       \<and> cleanEval ''sales_rank_drops_90'' = map_option JNum (safeInt (salesRankDrops90 result))
       \<and> cleanEval ''fba_profit'' = map_option JNum (safeInt (to_cents (fbaProfit result)))
       \<and> cleanEval ''fbm_profit'' = map_option JNum (safeInt (to_cents (fbmProfit result))))"
  unfolding Let_def
  by (intro conjI impI safeInt_other safeInt_Num safeInt_Some_bounded cleanEval_safeInt field_lookups)
    simp_all

theorem safeInt_guard_witness:
  "safeInt (Val (Num (4000000001 / 2))) = None
   \<and> safeInt (Val (Num (8000000001 / 4))) = Some (Num 2000000000)
   \<and> (\<exists>n::int. Num 2000000000 = Num (of_int n) \<and> - 2000000000 \<le> n \<and> n \<le> 2000000000)
   \<and> (let cleanEval = map_of (strip_undefined (evaluation_fields sample_result) [(''evaluated_at'', JTime 7)])
      in cleanEval ''amazon_price'' = None
       \<and> cleanEval ''sales_rank'' = Some (JNum (Num 2000000000))
       \<and> cleanEval ''sales_rank_drops_90'' = None
       \<and> cleanEval ''fba_profit'' = Some (JNum (Num 135))
       \<and> cleanEval ''fbm_profit'' = None)"
proof -
  have c: "to_cents (amazonPrice sample_result) = Val (Num 3000000000)"
    "to_cents (fbaProfit sample_result) = Val (Num 135)"
    "to_cents (fbmProfit sample_result) = Val (Num (- 3000000000))"
    "salesRank sample_result = Val (Num (8000000001 / 4))"
    "salesRankDrops90 sample_result = Val PInf"
    by code_simp+
  have s: "safeInt (Val (Num 3000000000)) = None" "safeInt (Val (Num 135)) = Some (Num 135)"
    "safeInt (Val (Num (- 3000000000))) = None"
    "safeInt (Val (Num (8000000001 / 4))) = Some (Num 2000000000)"
    "safeInt (Val (Num (4000000001 / 2))) = None"
    by code_simp+
  from safeInt_guard [of "4000000001 / 2" "Val (Num (8000000001 / 4))" "Num 2000000000" sample_result 7]
  show ?thesis
    by (simp add: Let_def c s)
qed


section \<open>Writing an evaluation back\<close>

text \<open>
  C4. A call of \<^verbatim>\<open>updateBookEvaluation\<close> succeeds exactly when the store accepts the
  update. On success, in every row with the given catalog key, \<^verbatim>\<open>evaluated_at\<close> is the
  current time, a column the evaluation defines (a value other than \<^verbatim>\<open>undefined\<close>)
  holds that value, and every other column, also one the evaluation leaves out or leaves
  \<^verbatim>\<open>undefined\<close>, holds what it held; no other row, and no checkpoint, changes. A failed
  call changes no row. The evaluation is an object of the parameter's type: its keys are
  distinct and \<^verbatim>\<open>evaluated_at\<close> is not one of them.
\<close>

theorem updateBookEvaluation_frame:
  assumes "distinct (map fst evaluation)" and "''evaluated_at'' \<notin> fst ` set evaluation"
    and "updateBookEvaluation isbn evaluation w = (ok, w')"
    and "i < length (ebay_books w)"
  shows "ok = (next_fault w = None)
     \<and> length (ebay_books w') = length (ebay_books w)
     \<and> fetcher_checkpoints w' = fetcher_checkpoints w
     \<and> (ebay_books w' ! i) k =
         (let r = ebay_books w ! i
          in if ok \<and> col r ''isbn'' = JStr isbn
             then (if k = ''evaluated_at'' then Some (JTime (clock w))
                   else case map_of evaluation k of
                          Some v \<Rightarrow> if v = JUndefined then r k else Some v
                        | None \<Rightarrow> r k)
             else r k)"
proof -
  from assms(3) have ok: "ok = (next_fault w = None)"
    and w': "w' = snd (updateBookEvaluation isbn evaluation w)"
    using updateBookEvaluation_proj(1) [of isbn evaluation w] by simp_all
  show ?thesis
    using assms(4)
    by (simp add: ok w' updateBookEvaluation_proj cleanEval_lookup [OF assms(1,2)] Let_def
          map_add_def split: option.splits)
qed

theorem updateBookEvaluation_frame_witness:
  "distinct (map fst no_data_evaluation) \<and> ''evaluated_at'' \<notin> fst ` set no_data_evaluation
   \<and> (0::nat) < length (ebay_books store0)
   \<and> fst (updateBookEvaluation ''9780306406157'' no_data_evaluation store0)
   \<and> (ebay_books (snd (updateBookEvaluation ''9780306406157'' no_data_evaluation store0)) ! 0) ''decision''
        = Some (JStr ''REJECT'')
   \<and> (ebay_books (snd (updateBookEvaluation ''9780306406157'' no_data_evaluation store0)) ! 0) ''amazon_price''
        = Some JNull
   \<and> (ebay_books (snd (updateBookEvaluation ''9780306406157'' no_data_evaluation store0)) ! 0) ''evaluated_at''
        = Some (JTime 1000)
   \<and> (ebay_books (snd (updateBookEvaluation ''9780306406157'' no_data_evaluation store0)) ! 0) ''price''
        = Some (JNum (Num 1000))"
proof -
  have h: "distinct (map fst no_data_evaluation)" "''evaluated_at'' \<notin> fst ` set no_data_evaluation"
    "updateBookEvaluation ''9780306406157'' no_data_evaluation store0 =
       (fst (updateBookEvaluation ''9780306406157'' no_data_evaluation store0),
        snd (updateBookEvaluation ''9780306406157'' no_data_evaluation store0))"
    "0 < length (ebay_books store0)"
    by (simp_all add: no_data_evaluation_def store0_def)
  have s: "next_fault store0 = None" "ebay_books store0 ! 0 = book_a" "clock store0 = 1000"
    by (simp_all add: store0_def next_fault_def)
  have m: "map_of no_data_evaluation ''decision'' = Some (JStr ''REJECT'')"
    "map_of no_data_evaluation ''amazon_price'' = Some JUndefined"
    "map_of no_data_evaluation ''evaluated_at'' = None"
    "map_of no_data_evaluation ''price'' = None"
    by (simp_all add: no_data_evaluation_def)
  have b: "book_a ''amazon_price'' = Some JNull" "book_a ''price'' = Some (JNum (Num 1000))"
    by (simp_all add: book_a_def)
  from updateBookEvaluation_frame [OF h, of "''decision''"]
    updateBookEvaluation_frame [OF h, of "''amazon_price''"]
    updateBookEvaluation_frame [OF h, of "''evaluated_at''"]
    updateBookEvaluation_frame [OF h, of "''price''"]
  show ?thesis
    using h(1,2,4) by (simp add: s m b sample_cols Let_def)
qed


section \<open>Inserted, duplicate, failed\<close>

text \<open>
  C5. \<^verbatim>\<open>insertBooks\<close> sends one insert per book of its input, in order, whatever the
  store answers to the earlier ones. \<open>saved\<close> counts the inserts the store accepted,
  \<open>duplicates\<close> those it refused with code 23505, \<open>errors\<close> those it refused with
  any other code, and the three add up to the length of the input.
\<close>

theorem insertBooks_counts:
  assumes "insertBooks books w = (c, w')"
  shows "saved c + duplicates c + errors c = length books
     \<and> (\<exists>new. events w' = events w @ new
          \<and> map fst (insert_attempts new) = map (\<lambda>b. col b ''isbn'') books
          \<and> saved c = length (filter (\<lambda>(k, r). r = None) (insert_attempts new))
          \<and> duplicates c =
              length (filter (\<lambda>(k, r). case r of Some e \<Rightarrow> code e = ''23505'' | None \<Rightarrow> False)
                (insert_attempts new))
          \<and> errors c =
              length (filter (\<lambda>(k, r). case r of Some e \<Rightarrow> code e \<noteq> ''23505'' | None \<Rightarrow> False)
                (insert_attempts new)))"
proof -
  from assms insertBooks_loop_counts [of books "\<lparr>saved = 0, duplicates = 0, errors = 0\<rparr>" w c w']
  obtain new where new: "events w' = events w @ new"
    "map fst (insert_attempts new) = map (\<lambda>b. col b ''isbn'') books"
    "saved c = length (filter (\<lambda>(k, r). r = None) (insert_attempts new))"
    "duplicates c =
       length (filter (\<lambda>(k, r). case r of Some e \<Rightarrow> code e = ''23505'' | None \<Rightarrow> False)
         (insert_attempts new))"
    "errors c =
       length (filter (\<lambda>(k, r). case r of Some e \<Rightarrow> code e \<noteq> ''23505'' | None \<Rightarrow> False)
         (insert_attempts new))"
    by (auto simp: insertBooks_def)
  have split: "length (filter (\<lambda>(k, r). r = None) xs)
      + length (filter (\<lambda>(k, r). case r of Some e \<Rightarrow> code e = ''23505'' | None \<Rightarrow> False) xs)
      + length (filter (\<lambda>(k, r). case r of Some e \<Rightarrow> code e \<noteq> ''23505'' | None \<Rightarrow> False) xs)
      = length xs" for xs :: "(jsval \<times> db_error option) list"
    by (induction xs) (auto split: option.splits)
  from new(2) have "length (insert_attempts new) = length books"
    by (metis length_map)
  with split [of "insert_attempts new"] new show ?thesis
    by auto
qed

theorem insertBooks_counts_witness:
  "fst (insertBooks [book_a, book_c, book_c, book_d] store1) = \<lparr>saved = 1, duplicates = 2, errors = 1\<rparr>
   \<and> (1::nat) + 2 + 1 = length [book_a, book_c, book_c, book_d]
   \<and> (\<exists>new. events (snd (insertBooks [book_a, book_c, book_c, book_d] store1)) = events store1 @ new
        \<and> map fst (insert_attempts new) =
            [JStr ''9780306406157'', JStr ''9780131103627'', JStr ''9780131103627'', JStr ''9780262033848''])"
proof -
  have h: "insertBooks [book_a, book_c, book_c, book_d] store1 =
      (fst (insertBooks [book_a, book_c, book_c, book_d] store1),
       snd (insertBooks [book_a, book_c, book_c, book_d] store1))"
    by simp
  from insertBooks_counts [OF h] obtain new
    where "events (snd (insertBooks [book_a, book_c, book_c, book_d] store1)) = events store1 @ new"
      and "map fst (insert_attempts new) = map (\<lambda>b. col b ''isbn'') [book_a, book_c, book_c, book_d]"
    by blast
  then have "\<exists>new. events (snd (insertBooks [book_a, book_c, book_c, book_d] store1)) = events store1 @ new
        \<and> map fst (insert_attempts new) =
            [JStr ''9780306406157'', JStr ''9780131103627'', JStr ''9780131103627'', JStr ''9780262033848'']"
    by (intro exI [of _ new]) (simp add: sample_cols sample_cols2)
  then show ?thesis
    by (simp add: sample_insert)
qed


section \<open>The pending books\<close>





section \<open>Cents, dollars and ounces\<close>




section \<open>A token before every lookup\<close>

text \<open>
  C8. In the trace of any run of \<^verbatim>\<open>evaluatePendingBooks\<close>, whether it returns or a
  lookup fails, every call of \<^verbatim>\<open>getProductByIsbn\<close> comes right after a call of
  \<^verbatim>\<open>waitForKeepaTokens\<close>; the first lookup of the run is no exception.
\<close>

theorem token_before_every_lookup:
  "\<exists>new. events (snd (evaluatePendingBooks api seller w)) = events w @ new \<and> lookups_guarded new"
proof -
  obtain pending w1 where gp: "getPendingBooks seller w = (pending, w1)"
    by (cases "getPendingBooks seller w")
  from getPendingBooks_effect(5) [OF gp] obtain new1
    where n1: "events w1 = events w @ new1" "list_all paging_event new1"
    by blast
  define line where "line = ConsoleLog (CHR 0x0A # ''Evaluating '' @ decimal (length pending)
                       @ '' pending books...'')"
  define pre where "pre = (if length pending > 0 then [WaitForKeepaTokens] else [])"
  define w3 where "w3 = (if length pending > 0 then emit WaitForKeepaTokens (emit line w1) else emit line w1)"
  have w3: "events w3 = events w @ new1 @ line # pre"
    by (simp add: w3_def pre_def n1)
  have run: "evaluatePendingBooks api seller w =
      evaluate_loop api (length pending) pending
        \<lparr>evaluated = 0, buy = 0, review = 0, reject = 0, noData = 0\<rparr> w3"
    by (simp add: evaluatePendingBooks_def gp Let_def w3_def line_def)
  define w' where "w' = snd (evaluatePendingBooks api seller w)"
  from evaluate_loop_guarded [of api "length pending" pending _ w3] run
  obtain new2 where n2: "events w' = events w3 @ new2" "lookups_guarded new2"
    unfolding w'_def by metis
  have "list_all (\<lambda>e. \<not> is_lookup e) (new1 @ line # pre)"
    using paging_quiet [OF n1(2)] by (simp add: line_def pre_def is_lookup_def)
  then have "lookups_guarded (new1 @ line # pre)"
    by (rule guarded_quiet)
  then have "lookups_guarded ((new1 @ line # pre) @ new2)"
    using n2(2) by (rule guarded_append)
  with n2(1) w3 show ?thesis
    unfolding w'_def by (intro exI [of _ "(new1 @ line # pre) @ new2"]) simp
qed

theorem token_before_every_lookup_witness:
  "\<exists>earlier after. events (snd (evaluatePendingBooks sample_api None store0)) =
      earlier @ WaitForKeepaTokens # GetProductByIsbn ''9780306406157'' # after"
proof -
  from token_before_every_lookup [of sample_api None store0]
  obtain new where new: "events (snd (evaluatePendingBooks sample_api None store0)) = events store0 @ new"
    and g: "lookups_guarded new"
    by blast
  have "events store0 = []" by (simp add: store0_def)
  with new have "new = events (snd (evaluatePendingBooks sample_api None store0))" by simp
  then have "new =
     [DbSelectRange 0 999 2, ConsoleLog (CHR 0x0A # ''Evaluating 2 pending books...''),
      WaitForKeepaTokens, WaitForKeepaTokens, GetProductByIsbn ''9781861972712'',
      DbUpdate ''9781861972712'' [(''evaluated_at'', JTime 1000), (''decision'', JStr ''REJECT'')] None,
      ConsoleLog (''  [1/2] 9781861972712 '' @ em_dash @ '' no Keepa data '' @ right_arrow @ '' REJECT''),
      Sleep 1500, WaitForKeepaTokens] @ GetProductByIsbn ''9780306406157'' #
     [DbUpdate ''9780306406157''
       [(''evaluated_at'', JTime 2500), (''decision'', JStr ''BUY''), (''asin'', JStr ''B000TEST01''),
        (''sales_rank'', JNum (Num 2000000000)), (''fba_profit'', JNum (Num 135)),
        (''book_type'', JStr ''Paperback''), (''weight_oz'', JNum (Num (43 / 2)))] None,
      ConsoleLog (''  [2/2] 9780306406157 '' @ right_arrow @ '' BUY (ok)''),
      Sleep 1500]"
    (is "new = ?before @ _ # ?after")
    by (simp only: sample_trace append_Cons append_Nil)
  with g obtain earlier where "?before = earlier @ [WaitForKeepaTokens]"
    unfolding lookups_guarded_def by blast
  with \<open>new = ?before @ _ # ?after\<close> new \<open>events store0 = []\<close>
  have "events (snd (evaluatePendingBooks sample_api None store0)) =
      earlier @ WaitForKeepaTokens # GetProductByIsbn ''9780306406157'' # ?after"
    by simp
  then show ?thesis by blast
qed


section \<open>The counters of a run\<close>

text \<open>
  C9. When \<^verbatim>\<open>evaluatePendingBooks\<close> returns, \<open>evaluated\<close> is the number of pending
  books it fetched and is the sum of \<open>buy\<close>, \<open>review\<close>, \<open>reject\<close> and \<open>noData\<close>. A
  book without Keepa data is counted in \<open>noData\<close> and in nothing else; \<open>reject\<close>
  counts only the books that \<^verbatim>\<open>evaluateBook\<close> rejected. The updates of the run that write
  \<^verbatim>\<open>REJECT\<close> are \<open>reject + noData\<close> many, all of them accepted when the store is
  healthy: the returned \<open>reject\<close> is smaller than the number of stored \<^verbatim>\<open>REJECT\<close>
  decisions as soon as one book has no data.
\<close>

theorem counters_balance:
  assumes "evaluatePendingBooks api seller w = (Inr c, w')"
  shows "(let pending = fst (getPendingBooks seller w) in
       evaluated c = buy c + review c + reject c + noData c
     \<and> evaluated c = length pending
     \<and> noData c = length (filter (\<lambda>b. getProductByIsbn api (isbn_of b) = Resolves None) pending)
     \<and> buy c = length (filter (\<lambda>b. verdict_of api b = Some BUY) pending)
     \<and> review c = length (filter (\<lambda>b. verdict_of api b = Some REVIEW) pending)
     \<and> reject c = length (filter (\<lambda>b. verdict_of api b = Some REJECT) pending))
   \<and> (\<exists>new. events w' = events w @ new
        \<and> length (rejections new) = reject c + noData c
        \<and> (store_healthy w \<longrightarrow> list_all (\<lambda>r. r = None) (rejections new)))"
proof -
  obtain pending w1 where gp: "getPendingBooks seller w = (pending, w1)"
    by (cases "getPendingBooks seller w")
  from getPendingBooks_effect(5) [OF gp] obtain new1
    where n1: "events w1 = events w @ new1" "list_all paging_event new1"
    by blast
  define line where "line = ConsoleLog (CHR 0x0A # ''Evaluating '' @ decimal (length pending)
                       @ '' pending books...'')"
  define pre where "pre = (if length pending > 0 then [WaitForKeepaTokens] else [])"
  define w3 where "w3 = (if length pending > 0 then emit WaitForKeepaTokens (emit line w1) else emit line w1)"
  define c0 where "c0 = \<lparr>evaluated = 0, buy = 0, review = 0, reject = 0, noData = 0\<rparr>"
  have w3: "events w3 = events w @ new1 @ line # pre"
    by (simp add: w3_def pre_def n1)
  have f3: "faults w3 = faults w1" by (simp add: w3_def)
  have "evaluatePendingBooks api seller w = evaluate_loop api (length pending) pending c0 w3"
    by (simp add: evaluatePendingBooks_def gp Let_def w3_def line_def c0_def)
  with assms have run: "evaluate_loop api (length pending) pending c0 w3 = (Inr c, w')"
    by simp
  have c0: "evaluated c0 = 0" "buy c0 = 0" "review c0 = 0" "reject c0 = 0" "noData c0 = 0"
    by (simp_all add: c0_def)
  note cnt = evaluate_loop_counters [OF run, unfolded c0]
  have bal: "evaluated c = buy c + review c + reject c + noData c"
    by (rule evaluate_loop_balance [OF run]) (simp add: c0)
  from evaluate_loop_rejections [OF run] obtain new2
    where n2: "events w' = events w3 @ new2"
      "length (rejections new2) =
         length (filter (\<lambda>b. getProductByIsbn api (isbn_of b) = Resolves None) pending)
         + length (filter (\<lambda>b. verdict_of api b = Some REJECT) pending)"
      "store_healthy w3 \<longrightarrow> list_all (\<lambda>r. r = None) (rejections new2)"
    by blast
  define start where "start = new1 @ line # pre"
  have q: "rejections start = []"
    unfolding start_def using n1(2)
    by (induction new1) (auto simp: paging_event_def line_def pre_def split: event.splits)
  from getPendingBooks_effect(4) [OF gp] obtain k where "faults w1 = drop k (faults w)" ..
  then have h3: "store_healthy w \<Longrightarrow> store_healthy w3"
    unfolding store_healthy_def f3 list_all_iff by (auto dest: in_set_dropD)
  have r: "rejections (start @ new2) = rejections new2"
    by (simp add: rejections_append q)
  have "events w' = events w @ start @ new2"
    using n2(1) w3 by (simp add: start_def)
  moreover have "length (rejections (start @ new2)) = reject c + noData c"
    unfolding r using n2(2) cnt by simp
  moreover have "store_healthy w \<longrightarrow> list_all (\<lambda>r. r = None) (rejections (start @ new2))"
    unfolding r using n2(3) h3 by simp
  ultimately have tr: "\<exists>new. events w' = events w @ new
        \<and> length (rejections new) = reject c + noData c
        \<and> (store_healthy w \<longrightarrow> list_all (\<lambda>r. r = None) (rejections new))"
    by blast
  show ?thesis
    unfolding Let_def gp fst_conv using bal cnt tr by simp
qed

theorem counters_balance_witness:
  "evaluatePendingBooks sample_api None store0 =
     (Inr \<lparr>evaluated = 2, buy = 1, review = 0, reject = 0, noData = 1\<rparr>,
      snd (evaluatePendingBooks sample_api None store0))
   \<and> store_healthy store0
   \<and> length (fst (getPendingBooks None store0)) = 2
   \<and> (\<exists>new. events (snd (evaluatePendingBooks sample_api None store0)) = events store0 @ new
        \<and> length (rejections new) = 0 + 1
        \<and> list_all (\<lambda>r. r = None) (rejections new))
   \<and> map (\<lambda>r. col r ''decision'') (ebay_books (snd (evaluatePendingBooks sample_api None store0)))
        = [JStr ''BUY'', JStr ''REJECT'']"
proof -
  have h: "evaluatePendingBooks sample_api None store0 =
     (Inr \<lparr>evaluated = 2, buy = 1, review = 0, reject = 0, noData = 1\<rparr>,
      snd (evaluatePendingBooks sample_api None store0))"
    using sample_counters by (metis prod.collapse)
  have s: "store_healthy store0" by (simp add: store_healthy_def store0_def)
  let ?c = "\<lparr>evaluated = 2, buy = 1, review = 0, reject = 0, noData = 1\<rparr>"
  from counters_balance [OF h] obtain new
    where len: "evaluated ?c = length (fst (getPendingBooks None store0))"
      and ev: "events (snd (evaluatePendingBooks sample_api None store0)) = events store0 @ new"
      and rj: "length (rejections new) = reject ?c + noData ?c"
      and ok: "store_healthy store0 \<longrightarrow> list_all (\<lambda>r. r = None) (rejections new)"
    unfolding Let_def by blast
  from ev rj ok s
  have "\<exists>new. events (snd (evaluatePendingBooks sample_api None store0)) = events store0 @ new
        \<and> length (rejections new) = 0 + 1
        \<and> list_all (\<lambda>r. r = None) (rejections new)"
    by (intro exI [of _ new]) simp
  moreover from len have "length (fst (getPendingBooks None store0)) = 2" by simp
  ultimately show ?thesis
    using s h sample_decisions by (intro conjI) simp_all
qed


section \<open>The checkpoint after a search\<close>





section \<open>A checkpoint that is missing or cannot be read\<close>

text \<open>
  C10. \<^verbatim>\<open>getCheckpoint\<close> returns 0 when there is no checkpoint row and when the read
  fails, and the stored offset otherwise; it changes no table. It returns in every case,
  and \<^verbatim>\<open>main\<close> then starts the scraper at the offset it returned: at 0 for a
  checkpoint that is missing or cannot be read.
\<close>

theorem getCheckpoint_defaults_to_zero:
  "(fetcher_checkpoints w (seller, categoryId) = None \<or> next_fault w \<noteq> None
      \<longrightarrow> fst (getCheckpoint seller categoryId w) = 0)
   \<and> (next_fault w = None \<and> fetcher_checkpoints w (seller, categoryId) = Some held
      \<longrightarrow> fst (getCheckpoint seller categoryId w) = last_offset held)
   \<and> ebay_books (snd (getCheckpoint seller categoryId w)) = ebay_books w
   \<and> fetcher_checkpoints (snd (getCheckpoint seller categoryId w)) = fetcher_checkpoints w
   \<and> (\<exists>new. events (snd (run_search scrape seller srch (index, tot) w)) =
        events w @ ScrapeAllListings seller (query srch) (fst (getCheckpoint seller (query srch) w)) # new)
   \<and> (fetcher_checkpoints w (seller, query srch) = None \<or> next_fault w \<noteq> None
      \<longrightarrow> (\<exists>new. events (snd (run_search scrape seller srch (index, tot) w)) =
            events w @ ScrapeAllListings seller (query srch) 0 # new))"
proof -
  have zero: "fst (getCheckpoint seller c w) = 0"
    if "fetcher_checkpoints w (seller, c) = None \<or> next_fault w \<noteq> None" for c
    using that by (auto simp: getCheckpoint_eq)
  have "\<exists>new. events (snd (run_search scrape seller srch (index, tot) w)) =
            events w @ ScrapeAllListings seller (query srch) 0 # new"
    if "fetcher_checkpoints w (seller, query srch) = None \<or> next_fault w \<noteq> None"
    using run_search_starts [of scrape seller srch index tot w] zero [OF that] by simp
  then show ?thesis
    using zero [of categoryId] run_search_starts [of scrape seller srch index tot w]
    by (simp add: getCheckpoint_eq)
qed

theorem getCheckpoint_defaults_to_zero_witness:
  "fetcher_checkpoints store0 (''alice'', ''textbook'') = None
   \<and> fst (getCheckpoint ''alice'' ''textbook'' store0) = 0
   \<and> next_fault store_unreadable \<noteq> None
   \<and> fetcher_checkpoints store_unreadable (''alice'', ''textbook'') = Some \<lparr>last_offset = 400, updated_at = 5\<rparr>
   \<and> fst (getCheckpoint ''alice'' ''textbook'' store_unreadable) = 0
   \<and> next_fault store_resumed = None
   \<and> fst (getCheckpoint ''alice'' ''textbook'' store_resumed) = 400
   \<and> (\<exists>new. events (snd (run_search empty_market ''alice'' textbooks ({}, 0, 0) store_unreadable)) =
        events store_unreadable @ ScrapeAllListings ''alice'' ''textbook'' 0 # new)"
proof -
  note T0 = getCheckpoint_defaults_to_zero [of store0 "''alice''" "''textbook''" _ empty_market
      textbooks "{}" "(0, 0)", unfolded sample_checkpoints]
  note T1 = getCheckpoint_defaults_to_zero [of store_unreadable "''alice''" "''textbook''" _ empty_market
      textbooks "{}" "(0, 0)", unfolded sample_checkpoints]
  note T2 = getCheckpoint_defaults_to_zero [of store_resumed "''alice''" "''textbook''"
      "\<lparr>last_offset = 400, updated_at = 5\<rparr>" empty_market textbooks "{}" "(0, 0)",
      unfolded sample_checkpoints]
  from T0 have a: "fst (getCheckpoint ''alice'' ''textbook'' store0) = 0" by simp
  from T1 have b: "fst (getCheckpoint ''alice'' ''textbook'' store_unreadable) = 0"
    and d: "\<exists>new. events (snd (run_search empty_market ''alice'' textbooks ({}, 0, 0) store_unreadable)) =
        events store_unreadable @ ScrapeAllListings ''alice'' ''textbook'' 0 # new"
    by simp_all
  from T2 have c: "fst (getCheckpoint ''alice'' ''textbook'' store_resumed) = 400" by simp
  show ?thesis
    using a b c d sample_checkpoints by simp
qed

end
